theory Spec2Isabelle
  imports Complex_Main
begin

section \<open>Numeric backend\<close>

text \<open>
  The solver of \<^verbatim>\<open>src/ap_solvers/sqp.py\<close> computes with mpmath scalars and with the
  dense matrix type of the package. Scalars are modelled as exact reals: rounding of the
  arbitrary-precision floats is outside the model. A column vector is the list of its
  entries, and a matrix is the list of its rows. A variable that the source calls
  \<^verbatim>\<open>pi\<close> is \<open>pi_v\<close> here.
\<close>

type_synonym vec = "real list"
type_synonym mat = "real list list"

text \<open>
  The exceptions that the modelled code can raise:
  \<^item> \<open>EmptySequence\<close>: the \<^verbatim>\<open>ValueError\<close> of Python's \<^verbatim>\<open>max\<close> and \<^verbatim>\<open>min\<close> on an
    empty iterable;
  \<^item> \<open>ZeroDivision\<close>: the \<^verbatim>\<open>ZeroDivisionError\<close> of a division by a zero scalar;
  \<^item> \<open>IndexOutOfRange\<close>: the \<^verbatim>\<open>IndexError\<close> of an index past the end;
  \<^item> \<open>AttributeMissing\<close>: the \<^verbatim>\<open>AttributeError\<close> of reading an attribute that no
    assignment has created yet;
  \<^item> \<open>QPSubproblemFailure\<close>: the failed \<^verbatim>\<open>assert\<close> on the residual or the gap of
    the subsolver;
  \<^item> \<open>LineSearchFailure\<close>: the \<^verbatim>\<open>ValueError("Current point could not be improved")\<close>
    at the end of the line search.
\<close>

datatype error =
    EmptySequence
  | ZeroDivision
  | IndexOutOfRange
  | AttributeMissing
  | QPSubproblemFailure
  | LineSearchFailure

text \<open>
  Modelled from the spec: the dense matrix and vector type (\<^verbatim>\<open>dense_mp_matrix\<close>) is not
  part of the source; the spec asks of it indexed access, transpose, matrix and vector
  multiply, addition, copy and iteration over the entries. The operations below are
  these, on lists. Operands of unequal size are the backend's concern: the list
  operations cut to the shorter operand, and the theorems state the sizes they need.
\<close>

definition vec_add :: "vec \<Rightarrow> vec \<Rightarrow> vec" where
  "vec_add u v = map2 (+) u v"

definition vec_sub :: "vec \<Rightarrow> vec \<Rightarrow> vec" where
  "vec_sub u v = map2 (-) u v"

definition scal :: "real \<Rightarrow> vec \<Rightarrow> vec" where
  "scal k v = map ((*) k) v"

definition dot :: "vec \<Rightarrow> vec \<Rightarrow> real" where
  "dot u v = sum_list (map2 (*) u v)"

text \<open>Python's \<^verbatim>\<open>max\<close> and \<^verbatim>\<open>min\<close> over the entries of a vector.\<close>

fun py_max :: "vec \<Rightarrow> error + real" where
  "py_max [] = Inl EmptySequence"
| "py_max (x # xs) = Inr (fold max xs x)"

fun py_min :: "vec \<Rightarrow> error + real" where
  "py_min [] = Inl EmptySequence"
| "py_min (x # xs) = Inr (fold min xs x)"

section \<open>The closed-form minimal-norm subproblem\<close>

text \<open>
  \<^verbatim>\<open>_solve_identity_hessian_single_constraint_positive_problem(a, b)\<close>: the sign of
  \<open>(a, b)\<close> is normalised, \<open>ap_norm\<close> sums the squares of the positive entries, and
  each entry of the result is \<open>max((b / ap_norm) * ai, 0)\<close>. The quotient is evaluated
  once per entry of \<open>a\<close>, so a zero \<open>ap_norm\<close> raises as soon as \<open>a\<close> has an entry.
\<close>

definition solve_identity_hessian_single_constraint_positive_problem ::
    "vec \<Rightarrow> real \<Rightarrow> error + vec" where
  "solve_identity_hessian_single_constraint_positive_problem a b =
     (let (a, b) = (if b < 0 then (map uminus a, - b) else (a, b));
          ap_norm = sum_list (map (\<lambda>ap. ap * ap) (filter (\<lambda>ap. 0 < ap) a))
      in if a \<noteq> [] \<and> ap_norm = 0 then Inl ZeroDivision
         else Inr (map (\<lambda>ai. max ((b / ap_norm) * ai) 0) a))"


text \<open>Further operations of the backend, as above.\<close>

definition mat_vec :: "mat \<Rightarrow> vec \<Rightarrow> vec" where
  "mat_vec A x = map (\<lambda>row. dot row x) A"

text \<open>
  The product of the transpose of \<open>A\<close> with \<open>v\<close>. The backend's matrix knows its number of
  columns even when it has no row; a list of rows does not, so the number of columns \<open>n\<close>
  is passed along.
\<close>

definition tmat_vec :: "nat \<Rightarrow> mat \<Rightarrow> vec \<Rightarrow> vec" where
  "tmat_vec n A v = map (\<lambda>j. dot (map (\<lambda>row. row ! j) A) v) [0..<n]"

definition mat_add :: "mat \<Rightarrow> mat \<Rightarrow> mat" where
  "mat_add A B = map2 vec_add A B"

definition mat_sub :: "mat \<Rightarrow> mat \<Rightarrow> mat" where
  "mat_sub A B = map2 vec_sub A B"

definition outer :: "vec \<Rightarrow> vec \<Rightarrow> mat" where
  "outer u v = map (\<lambda>ui. map (\<lambda>vj. ui * vj) v) u"

definition mat_sdiv :: "mat \<Rightarrow> real \<Rightarrow> mat" where
  "mat_sdiv A k = map (map (\<lambda>e. e / k)) A"

definition zeros :: "nat \<Rightarrow> vec" where
  "zeros n = replicate n 0"

definition zero_mat :: "nat \<Rightarrow> nat \<Rightarrow> mat" where
  "zero_mat m n = replicate m (zeros n)"

definition identity :: "nat \<Rightarrow> mat" where
  "identity n = map (\<lambda>i. (zeros n)[i := 1]) [0..<n]"

section \<open>The solver object\<close>

text \<open>
  The attributes of \<^verbatim>\<open>Sqp\<close>. The attributes \<open>f_grad_k\<close>, \<open>jacobian_k\<close> and
  \<open>hessian_approximation\<close> do not exist until a method assigns them: they are options,
  and reading \<open>None\<close> is the \<^verbatim>\<open>AttributeError\<close>. An absent analytic gradient is \<open>None\<close>.
  The attributes \<open>matrix\<close> (the backend's constructor) and \<open>print_stats\<close> (console
  output only) are left out.
\<close>

record sqp =
  f :: "vec \<Rightarrow> real"
  f_grad :: "(vec \<Rightarrow> vec) option"
  cs :: "(vec \<Rightarrow> real) list"
  c_grads :: "(vec \<Rightarrow> vec) option list"
  rho :: vec
  tol :: real
  minor_tol :: real
  eta :: real
  x_used_for_gradient_computation :: "vec option"
  f_grad_k :: "vec option"
  jacobian_k :: "mat option"
  hessian_approximation :: "mat option"

text \<open>
  \<^verbatim>\<open>__init__\<close>. An absent list of constraints or of constraint gradients is the empty
  list.
\<close>

definition Sqp_init ::
    "(vec \<Rightarrow> real) \<Rightarrow> (vec \<Rightarrow> vec) option \<Rightarrow> (vec \<Rightarrow> real) list
      \<Rightarrow> (vec \<Rightarrow> vec) option list \<Rightarrow> real \<Rightarrow> sqp" where
  "Sqp_init f0 f_grad0 cs0 c_grads0 tol0 =
     \<lparr> f = f0, f_grad = f_grad0, cs = cs0, c_grads = c_grads0,
       rho = replicate (length cs0) 0,
       tol = tol0, minor_tol = tol0 / 100, eta = 0.5,
       x_used_for_gradient_computation = None,
       f_grad_k = None, jacobian_k = None, hessian_approximation = None \<rparr>"

text \<open>\<^verbatim>\<open>evaluate_constraints\<close>.\<close>

definition evaluate_constraints :: "sqp \<Rightarrow> vec \<Rightarrow> vec" where
  "evaluate_constraints s x = map (\<lambda>c. c x) (cs s)"

text \<open>
  Methods that assign attributes return the solver after the call together with the
  outcome; on an exception the solver is the one at the \<^verbatim>\<open>raise\<close>.
\<close>

type_synonym 'a outcome = "sqp \<times> (error + 'a)"

section \<open>Gradient cache\<close>

text \<open>
  \<^verbatim>\<open>_finite_difference_grad\<close>: the loop over the coordinates, with the shifted copy of
  \<open>x\<close> and the gradient built so far as its state.
\<close>

fun finite_difference_loop ::
    "real \<Rightarrow> (vec \<Rightarrow> real) \<Rightarrow> vec \<Rightarrow> nat list \<Rightarrow> vec \<Rightarrow> vec \<Rightarrow> error + vec" where
  "finite_difference_loop h g x [] x_shift grad = Inr grad"
| "finite_difference_loop h g x (i # idx) x_shift grad =
     (let x_shift = x_shift[i := x ! i + h];
          fp = g x_shift;
          x_shift = x_shift[i := x ! i - h];
          fm = g x_shift;
          x_shift = x_shift[i := x ! i]
      in if 2 * h = 0 then Inl ZeroDivision
         else finite_difference_loop h g x idx x_shift (grad[i := (fp - fm) / (2 * h)]))"

definition finite_difference_grad :: "sqp \<Rightarrow> (vec \<Rightarrow> real) \<Rightarrow> vec \<Rightarrow> error + vec" where
  "finite_difference_grad s g x =
     (let h = tol s;
          grad = zeros (length x);
          x_shift = x
      in finite_difference_loop h g x [0..<length x] x_shift grad)"

text \<open>
  The gradient of constraint \<open>i\<close> in \<^verbatim>\<open>_compute_gradients\<close>: the analytic one when
  \<^verbatim>\<open>self.c_grads and self.c_grads[i]\<close>, the finite difference otherwise.
\<close>

definition constraint_gradient :: "sqp \<Rightarrow> nat \<Rightarrow> vec \<Rightarrow> error + vec" where
  "constraint_gradient s i x =
     (if c_grads s \<noteq> [] then
        (if i < length (c_grads s) then
           (case c_grads s ! i of
              Some g \<Rightarrow> Inr (g x)
            | None \<Rightarrow> finite_difference_grad s (cs s ! i) x)
         else Inl IndexOutOfRange)
      else finite_difference_grad s (cs s ! i) x)"

text \<open>
  The loop over the constraints in \<^verbatim>\<open>_compute_gradients\<close>: row \<open>i\<close> of the Jacobian
  receives the entries of the gradient, and an entry past the end of the row is an
  \<^verbatim>\<open>IndexError\<close> after the row has been filled.
\<close>

fun jacobian_loop :: "sqp \<Rightarrow> vec \<Rightarrow> nat list \<Rightarrow> unit outcome" where
  "jacobian_loop s x [] = (s, Inr ())"
| "jacobian_loop s x (i # idx) =
     (case constraint_gradient s i x of
        Inl e \<Rightarrow> (s, Inl e)
      | Inr grad \<Rightarrow>
         (case jacobian_k s of
            None \<Rightarrow> (s, Inl AttributeMissing)
          | Some J \<Rightarrow>
             (let row = J ! i;
                  s = s\<lparr>jacobian_k :=
                        Some (J[i := take (length row) grad @ drop (length grad) row])\<rparr>
              in if length row < length grad then (s, Inl IndexOutOfRange)
                 else jacobian_loop s x idx)))"

text \<open>\<^verbatim>\<open>_compute_gradients\<close>.\<close>

definition compute_gradients :: "sqp \<Rightarrow> vec \<Rightarrow> unit outcome" where
  "compute_gradients s x =
     (if x_used_for_gradient_computation s = Some x then (s, Inr ())
      else
        (case (case f_grad s of
                 Some g \<Rightarrow> Inr (g x)
               | None \<Rightarrow> finite_difference_grad s (f s) x) of
           Inl e \<Rightarrow> (s, Inl e)
         | Inr gk \<Rightarrow>
            (let s = s\<lparr>f_grad_k := Some gk\<rparr>;
                 s = s\<lparr>jacobian_k := Some (zero_mat (length (cs s)) (length x))\<rparr>
             in case jacobian_loop s x [0..<length (cs s)] of
                  (s, Inl e) \<Rightarrow> (s, Inl e)
                | (s, Inr _) \<Rightarrow> (s\<lparr>x_used_for_gradient_computation := Some x\<rparr>, Inr ()))))"

section \<open>The quadratic subproblem\<close>

text \<open>
  The subsolver \<^verbatim>\<open>qp.solve_qp\<close> is not part of the source: it is a parameter, a function
  from \<open>Q\<close>, \<open>c\<close>, \<open>A_eq\<close>, \<open>b_eq\<close>, \<open>A_ineq\<close>, \<open>b_ineq\<close>, the tolerance and the
  iteration budget to \<open>x\<close>, \<open>s\<close>, \<open>pi\<close>, the objective, the residual, the gap and
  the iterations used.
\<close>

type_synonym qp_solver =
  "mat \<Rightarrow> vec \<Rightarrow> mat \<Rightarrow> vec \<Rightarrow> mat \<Rightarrow> vec \<Rightarrow> real \<Rightarrow> nat
     \<Rightarrow> vec \<times> vec \<times> vec \<times> real \<times> real \<times> real \<times> nat"

text \<open>
  \<^verbatim>\<open>_solve_qp\<close>. The vector \<open>c\<close> is formed from the cached gradient before the call of
  \<^verbatim>\<open>_compute_gradients\<close>, as in the source.
\<close>

definition solve_qp :: "qp_solver \<Rightarrow> sqp \<Rightarrow> vec \<Rightarrow> (vec \<times> vec \<times> vec \<times> nat) outcome" where
  "solve_qp qp s x_k =
     (case hessian_approximation s of
        None \<Rightarrow> (s, Inl AttributeMissing)
      | Some Q \<Rightarrow>
     (case f_grad_k s of
        None \<Rightarrow> (s, Inl AttributeMissing)
      | Some g \<Rightarrow>
     (let c = vec_sub g (mat_vec Q x_k);
          A_eq = [];
          b_eq = []
      in case compute_gradients s x_k of
           (s, Inl e) \<Rightarrow> (s, Inl e)
         | (s, Inr _) \<Rightarrow>
        (case jacobian_k s of
           None \<Rightarrow> (s, Inl AttributeMissing)
         | Some J \<Rightarrow>
           (let A_ineq = J;
                b_ineq = vec_sub (mat_vec J x_k) (evaluate_constraints s x_k)
            in case qp Q c A_eq b_eq A_ineq b_ineq (minor_tol s) 100 of
                 (x, sl, pi_v, fv, res, gap, iteration) \<Rightarrow>
                   if \<not> res < minor_tol s then (s, Inl QPSubproblemFailure)
                   else if \<not> gap < minor_tol s then (s, Inl QPSubproblemFailure)
                   else (s, Inr (x, sl, pi_v, iteration)))))))"

section \<open>Penalty update\<close>

text \<open>
  \<^verbatim>\<open>_update_rho\<close>. The products \<open>p_x' H p_x\<close> are written as \<open>dot p_x (H p_x)\<close>.
  Python's \<^verbatim>\<open>and\<close> evaluates \<^verbatim>\<open>max(cMinusS2)\<close> only when \<open>rhs > 0\<close>.
\<close>

definition update_rho :: "sqp \<Rightarrow> vec \<Rightarrow> vec \<Rightarrow> vec \<Rightarrow> vec \<Rightarrow> vec \<Rightarrow> unit outcome" where
  "update_rho s x_k s_k pi_k x_hat pi_hat =
     (case compute_gradients s x_k of
        (s, Inl e) \<Rightarrow> (s, Inl e)
      | (s, Inr _) \<Rightarrow>
     (let csv = evaluate_constraints s x_k;
          p_x = vec_sub x_hat x_k;
          p_pi = vec_sub pi_hat pi_k;
          cMinusS = vec_sub csv s_k;
          cMinusS2 = map (\<lambda>c. c ^ 2) cMinusS
      in case f_grad_k s of
           None \<Rightarrow> (s, Inl AttributeMissing)
         | Some g \<Rightarrow>
        (case hessian_approximation s of
           None \<Rightarrow> (s, Inl AttributeMissing)
         | Some H \<Rightarrow>
           (let rhs = dot g p_x + dot (vec_sub pi_k p_pi) cMinusS
                        - 0.5 * dot p_x (mat_vec H p_x)
            in if rhs > 0 then
                 (case py_max cMinusS2 of
                    Inl e \<Rightarrow> (s, Inl e)
                  | Inr mx \<Rightarrow>
                     if mx > 0 then
                       (case solve_identity_hessian_single_constraint_positive_problem
                               cMinusS2 rhs of
                          Inl e \<Rightarrow> (s, Inl e)
                        | Inr rho_star \<Rightarrow> (s\<lparr>rho := rho_star\<rparr>, Inr ()))
                     else (s, Inr ()))
               else (s, Inr ())))))"

section \<open>Merit function and line search\<close>

text \<open>
  The merit function of \<^verbatim>\<open>_line_search\<close>: the loop over the constraints adds the
  penalty terms; \<open>rho[j]\<close> and \<open>s[j]\<close> past the end are an \<^verbatim>\<open>IndexError\<close>.
\<close>

fun merit_loop :: "sqp \<Rightarrow> vec \<Rightarrow> vec \<Rightarrow> nat list \<Rightarrow> real \<Rightarrow> error + real" where
  "merit_loop s csv sv [] phi = Inr phi"
| "merit_loop s csv sv (j # idx) phi =
     (if j < length (rho s) \<and> j < length sv
      then merit_loop s csv sv idx (phi + 0.5 * rho s ! j * (csv ! j - sv ! j) ^ 2)
      else Inl IndexOutOfRange)"

definition merit_function :: "sqp \<Rightarrow> vec \<Rightarrow> vec \<Rightarrow> vec \<Rightarrow> error + real" where
  "merit_function s x sv pi_v =
     (let csv = evaluate_constraints s x;
          phi = f s x - dot pi_v (vec_sub csv sv)
      in merit_loop s csv sv [0..<length csv] phi)"

text \<open>
  The loop of \<^verbatim>\<open>_line_search\<close>, with the number of trials left; running out of trials
  is the \<^verbatim>\<open>raise\<close> after the loop.
\<close>

fun line_search_loop ::
    "sqp \<Rightarrow> nat \<Rightarrow> real \<Rightarrow> real \<Rightarrow> vec \<Rightarrow> vec \<Rightarrow> vec \<Rightarrow> vec \<Rightarrow> vec \<Rightarrow> vec
      \<Rightarrow> error + vec \<times> vec \<times> vec \<times> real" where
  "line_search_loop s 0 alpha m0 x_k s_k pi_k x_hat s_hat pi_hat = Inl LineSearchFailure"
| "line_search_loop s (Suc k) alpha m0 x_k s_k pi_k x_hat s_hat pi_hat =
     (let x = vec_add (scal (1 - alpha) x_k) (scal alpha x_hat);
          sv = vec_add (scal (1 - alpha) s_k) (scal alpha s_hat);
          pi_v = vec_add (scal (1 - alpha) pi_k) (scal alpha pi_hat)
      in case merit_function s x sv pi_v of
           Inl e \<Rightarrow> Inl e
         | Inr phi \<Rightarrow>
            if phi < m0 then Inr (x, sv, pi_v, alpha)
            else line_search_loop s k (alpha / 2) m0 x_k s_k pi_k x_hat s_hat pi_hat)"

text \<open>\<^verbatim>\<open>_line_search\<close>.\<close>

definition line_search ::
    "sqp \<Rightarrow> vec \<Rightarrow> vec \<Rightarrow> vec \<Rightarrow> vec \<Rightarrow> vec \<Rightarrow> vec \<Rightarrow> (vec \<times> vec \<times> vec \<times> real) outcome" where
  "line_search s x_k s_k pi_k x_hat s_hat pi_hat =
     (case update_rho s x_k s_k pi_k x_hat pi_hat of
        (s, Inl e) \<Rightarrow> (s, Inl e)
      | (s, Inr _) \<Rightarrow>
         (let alpha = 1
          in case merit_function s x_k s_k pi_k of
               Inl e \<Rightarrow> (s, Inl e)
             | Inr m0 \<Rightarrow>
                 (s, line_search_loop s 30 alpha m0 x_k s_k pi_k x_hat s_hat pi_hat)))"

section \<open>Hessian update\<close>

text \<open>
  The test of \<^verbatim>\<open>_update_hessian_approximation\<close> that guards the correction,
  \<^verbatim>\<open>(beta > 0 and max(a) > 0) or (beta < 0 and min(a) < 0)\<close>, in Python's order of
  evaluation: \<^verbatim>\<open>max\<close> and \<^verbatim>\<open>min\<close> are called only behind their guards.
\<close>

definition correction_applies :: "real \<Rightarrow> vec \<Rightarrow> error + bool" where
  "correction_applies beta a =
     (case (if beta > 0
            then (case py_max a of Inl e \<Rightarrow> Inl e | Inr mx \<Rightarrow> Inr (mx > 0))
            else Inr False) of
        Inl e \<Rightarrow> Inl e
      | Inr True \<Rightarrow> Inr True
      | Inr False \<Rightarrow>
          (if beta < 0
           then (case py_min a of Inl e \<Rightarrow> Inl e | Inr mn \<Rightarrow> Inr (mn < 0))
           else Inr False))"

text \<open>
  The first part of \<^verbatim>\<open>_update_hessian_approximation\<close>, up to the decision: the result
  is \<open>Some (delta, y, yTdelta)\<close> when \<open>perform_update\<close> holds at the end and \<open>None\<close>
  otherwise. The product \<open>p' H p\<close> is written as \<open>dot p (H p)\<close>.
\<close>

definition curvature_pair ::
    "sqp \<Rightarrow> vec \<Rightarrow> vec \<Rightarrow> vec \<Rightarrow> vec \<Rightarrow> real \<Rightarrow> (vec \<times> vec \<times> real) option outcome" where
  "curvature_pair s x0 x1 x_hat pi1 alpha =
     (case f_grad_k s of
        None \<Rightarrow> (s, Inl AttributeMissing)
      | Some f_grad0 \<Rightarrow>
     (case jacobian_k s of
        None \<Rightarrow> (s, Inl AttributeMissing)
      | Some jacobian0 \<Rightarrow>
     (case compute_gradients s x1 of
        (s, Inl e) \<Rightarrow> (s, Inl e)
      | (s, Inr _) \<Rightarrow>
     (case (f_grad_k s, jacobian_k s, hessian_approximation s) of
        (Some g1, Some J1, Some H) \<Rightarrow>
          (let delta = vec_sub x1 x0;
               deltaJ = mat_sub J1 jacobian0;
               y = vec_sub (vec_sub g1 f_grad0) (tmat_vec (length x1) deltaJ pi1);
               p = vec_sub x_hat x0;
               sigma = alpha * (1 - eta s) * dot p (mat_vec H p);
               yTdelta = dot y delta;
               perform_update = (yTdelta \<ge> sigma)
           in if perform_update then (s, Inr (Some (delta, y, yTdelta)))
              else
                (let beta = sigma - yTdelta;
                     v = mat_vec deltaJ delta;
                     w = vec_sub (vec_sub (evaluate_constraints s x1)
                                          (evaluate_constraints s x0))
                                 (mat_vec jacobian0 delta);
                     a = map2 (*) v w
                 in case correction_applies beta a of
                      Inl e \<Rightarrow> (s, Inl e)
                    | Inr False \<Rightarrow> (s, Inr None)
                    | Inr True \<Rightarrow>
                       (case solve_identity_hessian_single_constraint_positive_problem
                               a beta of
                          Inl e \<Rightarrow> (s, Inl e)
                        | Inr omega \<Rightarrow>
                           if dot omega omega < 1000000 then
                             (let y = vec_add y (tmat_vec (length x1) deltaJ
                                                    (map2 (*) omega w));
                                  yTdelta = dot y delta
                              in (s, Inr (Some (delta, y, yTdelta))))
                           else (s, Inr None))))
      | _ \<Rightarrow> (s, Inl AttributeMissing)))))"

text \<open>
  \<^verbatim>\<open>_update_hessian_approximation\<close>: the rank-two update when the first part asks for
  it. A zero \<open>yTdelta\<close> or \<open>qTdelta\<close> is a division by zero.
\<close>

definition update_hessian_approximation ::
    "sqp \<Rightarrow> vec \<Rightarrow> vec \<Rightarrow> vec \<Rightarrow> vec \<Rightarrow> real \<Rightarrow> unit outcome" where
  "update_hessian_approximation s x0 x1 x_hat pi1 alpha =
     (case curvature_pair s x0 x1 x_hat pi1 alpha of
        (s, Inl e) \<Rightarrow> (s, Inl e)
      | (s, Inr None) \<Rightarrow> (s, Inr ())
      | (s, Inr (Some (delta, y, yTdelta))) \<Rightarrow>
         (case hessian_approximation s of
            None \<Rightarrow> (s, Inl AttributeMissing)
          | Some H \<Rightarrow>
             (let q = mat_vec H delta;
                  qTdelta = dot q delta
              in if yTdelta = 0 \<or> qTdelta = 0 then (s, Inl ZeroDivision)
                 else (s\<lparr>hessian_approximation :=
                           Some (mat_add H (mat_add (mat_sdiv (outer y y) yTdelta)
                                                    (mat_sdiv (outer q q) qTdelta)))\<rparr>,
                       Inr ()))))"

section \<open>Progress report and convergence test\<close>

text \<open>
  \<^verbatim>\<open>_print\<close>: the line that is printed is not modelled, the \<^verbatim>\<open>max\<close> over the
  constraint values is.
\<close>

definition sqp_print :: "sqp \<Rightarrow> vec \<Rightarrow> error + unit" where
  "sqp_print s x =
     (case py_max (evaluate_constraints s x) of
        Inl e \<Rightarrow> Inl e
      | Inr c \<Rightarrow> Inr ())"

text \<open>
  The loop of \<^verbatim>\<open>_check_convergence\<close>. The stationarity test is in the body of the loop
  over the constraints, as in the source.
\<close>

fun convergence_loop ::
    "sqp \<Rightarrow> vec \<Rightarrow> vec \<Rightarrow> real \<Rightarrow> real \<Rightarrow> nat list \<Rightarrow> bool outcome" where
  "convergence_loop s x pi_v tau_x tau_pi [] = (s, Inr True)"
| "convergence_loop s x pi_v tau_x tau_pi (i # idx) =
     (let ci = (cs s ! i) x
      in if ci < - tau_x then (s, Inr False)
         else if \<not> i < length pi_v then (s, Inl IndexOutOfRange)
         else if ci * pi_v ! i > tau_pi then (s, Inr False)
         else
           (case compute_gradients s x of
              (s, Inl e) \<Rightarrow> (s, Inl e)
            | (s, Inr _) \<Rightarrow>
               (case (f_grad_k s, jacobian_k s) of
                  (Some g, Some J) \<Rightarrow>
                    (let d = vec_sub g (tmat_vec (length x) J pi_v)
                     in if list_ex (\<lambda>di. \<bar>di\<bar> > tau_pi) d then (s, Inr False)
                        else convergence_loop s x pi_v tau_x tau_pi idx)
                | _ \<Rightarrow> (s, Inl AttributeMissing))))"

text \<open>\<^verbatim>\<open>_check_convergence\<close>.\<close>

definition check_convergence :: "sqp \<Rightarrow> vec \<Rightarrow> vec \<Rightarrow> bool outcome" where
  "check_convergence s x pi_v =
     (case py_max x of
        Inl e \<Rightarrow> (s, Inl e)
      | Inr max_x \<Rightarrow>
     (case py_max pi_v of
        Inl e \<Rightarrow> (s, Inl e)
      | Inr max_pi \<Rightarrow>
     (let tau_x = tol s * (1 + max_x);
          tau_pi = tol s * (1 + max_pi)
      in if list_ex (\<lambda>p. p < - tau_pi) pi_v then (s, Inr False)
         else convergence_loop s x pi_v tau_x tau_pi [0..<length (cs s)])))"

section \<open>The outer iteration\<close>

text \<open>
  The loop of \<^verbatim>\<open>solve\<close>, with the number of iterations left. An exception of a step
  leaves the loop at once.
\<close>

fun solve_loop ::
    "qp_solver \<Rightarrow> nat \<Rightarrow> sqp \<Rightarrow> vec \<Rightarrow> vec \<Rightarrow> vec \<Rightarrow> (vec \<times> vec \<times> vec) outcome" where
  "solve_loop qp 0 s x_k s_k pi_k = (s, Inr (x_k, s_k, pi_k))"
| "solve_loop qp (Suc k) s x_k s_k pi_k =
     (case compute_gradients s x_k of
        (s, Inl e) \<Rightarrow> (s, Inl e)
      | (s, Inr _) \<Rightarrow>
     (case solve_qp qp s x_k of
        (s, Inl e) \<Rightarrow> (s, Inl e)
      | (s, Inr (x_hat, s_hat, pi_hat, minor_iterations)) \<Rightarrow>
     (let x_prev = x_k
      in case line_search s x_k s_k pi_k x_hat s_hat pi_hat of
           (s, Inl e) \<Rightarrow> (s, Inl e)
         | (s, Inr (x_k, s_k, pi_k, alpha)) \<Rightarrow>
        (case update_hessian_approximation s x_prev x_k x_hat pi_k alpha of
           (s, Inl e) \<Rightarrow> (s, Inl e)
         | (s, Inr _) \<Rightarrow>
        (case sqp_print s x_k of
           Inl e \<Rightarrow> (s, Inl e)
         | Inr _ \<Rightarrow>
        (case check_convergence s x_k pi_k of
           (s, Inl e) \<Rightarrow> (s, Inl e)
         | (s, Inr True) \<Rightarrow> (s, Inr (x_k, s_k, pi_k))
         | (s, Inr False) \<Rightarrow> solve_loop qp k s x_k s_k pi_k))))))"

text \<open>\<^verbatim>\<open>solve\<close>.\<close>

definition solve :: "qp_solver \<Rightarrow> sqp \<Rightarrow> vec \<Rightarrow> nat \<Rightarrow> (vec \<times> real \<times> vec) outcome" where
  "solve qp s x0 max_iter =
     (let n = length x0;
          s = s\<lparr>hessian_approximation := Some (identity n)\<rparr>;
          x_k = x0;
          s_k = zeros (length (cs s));
          pi_k = zeros (length (cs s))
      in case solve_loop qp max_iter s x_k s_k pi_k of
           (s, Inl e) \<Rightarrow> (s, Inl e)
         | (s, Inr (x_k, s_k, pi_k)) \<Rightarrow>
             (s, Inr (x_k, f s x_k, evaluate_constraints s x_k)))"

section \<open>Notions of the specification\<close>

text \<open>
  The merit value as the specification writes it,
  \<open>f(x) - pi'(c(x) - s) + (\<Sum>j. rho\<^sub>j (c\<^sub>j(x) - s\<^sub>j)\<^sup>2) / 2\<close>, to be compared with
  \<open>merit_function\<close>, and the convex combination \<open>(1 - alpha) u + alpha v\<close>.
\<close>

definition merit_value :: "sqp \<Rightarrow> vec \<Rightarrow> vec \<Rightarrow> vec \<Rightarrow> real" where
  "merit_value s x sv pi_v =
     f s x - dot pi_v (vec_sub (evaluate_constraints s x) sv)
     + (\<Sum>j<length (cs s). rho s ! j * ((cs s ! j) x - sv ! j) ^ 2) / 2"

definition convex_combination :: "real \<Rightarrow> vec \<Rightarrow> vec \<Rightarrow> vec" where
  "convex_combination alpha u v = vec_add (scal (1 - alpha) u) (scal alpha v)"

text \<open>
  The central finite difference of the specification in coordinate \<open>i\<close>,
  \<open>(g(x + h e\<^sub>i) - g(x - h e\<^sub>i)) / 2h\<close>, and the gradient that the specification
  prescribes for constraint \<open>i\<close>: the analytic one when it is supplied, the central
  finite difference with the step \<open>tol\<close> otherwise.
\<close>

definition central_difference :: "real \<Rightarrow> (vec \<Rightarrow> real) \<Rightarrow> vec \<Rightarrow> nat \<Rightarrow> real" where
  "central_difference h g x i = (g (x[i := x ! i + h]) - g (x[i := x ! i - h])) / (2 * h)"

definition constraint_row :: "sqp \<Rightarrow> vec \<Rightarrow> nat \<Rightarrow> vec" where
  "constraint_row s x i =
     (case (if c_grads s = [] then None else c_grads s ! i) of
        Some g \<Rightarrow> g x
      | None \<Rightarrow> map (central_difference (tol s) (cs s ! i) x) [0..<length x])"

text \<open>
  The four checks of the specification at \<open>(x, pi)\<close>, with the tolerances
  \<open>tol (1 + max |x|)\<close> and \<open>tol (1 + max |pi|)\<close>: dual feasibility, primal
  feasibility and complementary slackness of every constraint, and stationarity of
  \<open>grad f(x) - J(x)' pi\<close>. The largest absolute value of a vector without entries is
  taken to be zero.
\<close>

definition max_abs :: "vec \<Rightarrow> real" where
  "max_abs v = fold max (map abs v) 0"

definition kkt_within_tolerance :: "sqp \<Rightarrow> vec \<Rightarrow> vec \<Rightarrow> bool" where
  "kkt_within_tolerance s x pi_v =
     (let tau_x = tol s * (1 + max_abs x);
          tau_pi = tol s * (1 + max_abs pi_v);
          g = (case f_grad s of
                 Some gf \<Rightarrow> gf x
               | None \<Rightarrow> map (central_difference (tol s) (f s) x) [0..<length x]);
          J = map (constraint_row s x) [0..<length (cs s)];
          d = vec_sub g (tmat_vec (length x) J pi_v)
      in list_all (\<lambda>p. \<not> p < - tau_pi) pi_v
         \<and> list_all (\<lambda>i. \<not> (cs s ! i) x < - tau_x \<and> \<not> (cs s ! i) x * pi_v ! i > tau_pi)
              [0..<length (cs s)]
         \<and> list_all (\<lambda>di. \<not> \<bar>di\<bar> > tau_pi) d)"

text \<open>
  Symmetry and positive definiteness of a matrix, for the invariant of the Hessian
  approximation: a symmetric matrix is square with equal entries across the diagonal,
  and a positive definite one has a positive quadratic form at every vector other than
  zero.
\<close>

definition square_mat :: "mat \<Rightarrow> bool" where
  "square_mat A = list_all (\<lambda>row. length row = length A) A"

definition symmetric_mat :: "mat \<Rightarrow> bool" where
  "symmetric_mat A =
     (square_mat A
      \<and> list_all (\<lambda>i. list_all (\<lambda>j. A ! i ! j = A ! j ! i) [0..<length A]) [0..<length A])"

definition positive_definite :: "mat \<Rightarrow> bool" where
  "positive_definite A =
     (\<forall>x. length x = length A \<and> x \<noteq> zeros (length A) \<longrightarrow> 0 < dot x (mat_vec A x))"

text \<open>
  The gradient of the objective and the Jacobian of the constraints at \<open>x\<close> as the
  specification prescribes them (analytic when supplied, central finite difference with
  the step \<open>tol\<close> otherwise), and the invariant of the gradient cache: when a point is
  recorded as cached, the stored gradient and Jacobian are those at that point.
\<close>

definition objective_gradient :: "sqp \<Rightarrow> vec \<Rightarrow> vec" where
  "objective_gradient s x =
     (case f_grad s of
        Some g \<Rightarrow> g x
      | None \<Rightarrow> map (central_difference (tol s) (f s) x) [0..<length x])"

definition jacobian_at :: "sqp \<Rightarrow> vec \<Rightarrow> mat" where
  "jacobian_at s x = map (constraint_row s x) [0..<length (cs s)]"

definition cache_consistent :: "sqp \<Rightarrow> bool" where
  "cache_consistent s =
     (case x_used_for_gradient_computation s of
        None \<Rightarrow> True
      | Some x \<Rightarrow> f_grad_k s = Some (objective_gradient s x)
                  \<and> jacobian_k s = Some (jacobian_at s x))"

section \<open>Properties of the closed-form subproblem\<close>

lemma ap_norm_nonneg:
  "0 \<le> sum_list (map (\<lambda>ap. ap * ap) (filter (\<lambda>ap. 0 < ap) (a::vec)))"
  by (induction a) auto

lemma ap_norm_pos:
  "\<exists>x\<in>set (a::vec). 0 < x \<Longrightarrow>
     0 < sum_list (map (\<lambda>ap. ap * ap) (filter (\<lambda>ap. 0 < ap) a))"
proof (induction a)
  case Nil
  then show ?case by simp
next
  case (Cons x xs)
  have tail: "0 \<le> sum_list (map (\<lambda>ap. ap * ap) (filter (\<lambda>ap. 0 < ap) xs))"
    by (rule ap_norm_nonneg)
  show ?case
  proof (cases "0 < x")
    case True
    then have "0 < x * x" by simp
    then have "0 < x * x + sum_list (map (\<lambda>ap. ap * ap) (filter (\<lambda>ap. 0 < ap) xs))"
      using tail by (rule add_pos_nonneg)
    with True show ?thesis by simp
  next
    case False
    with Cons show ?thesis by auto
  qed
qed

lemma dot_clipped:
  "0 \<le> k \<Longrightarrow> dot a (map (\<lambda>ai. max (k * ai) 0) a)
     = k * sum_list (map (\<lambda>ap. ap * ap) (filter (\<lambda>ap. 0 < ap) a))"
proof (induction a)
  case Nil
  then show ?case by (simp add: dot_def)
next
  case (Cons x xs)
  then have ih: "dot xs (map (\<lambda>ai. max (k * ai) 0) xs)
     = k * sum_list (map (\<lambda>ap. ap * ap) (filter (\<lambda>ap. 0 < ap) xs))" by simp
  have head: "x * max (k * x) 0 = (if 0 < x then k * (x * x) else 0)"
  proof (cases "0 < x")
    case True
    with Cons.prems have "0 \<le> k * x" by simp
    then show ?thesis using True by (simp add: max_def)
  next
    case False
    with Cons.prems have "k * x \<le> 0" by (simp add: mult_nonneg_nonpos)
    then show ?thesis using False by (auto simp: max_def)
  qed
  have "dot (x # xs) (map (\<lambda>ai. max (k * ai) 0) (x # xs))
      = x * max (k * x) 0 + dot xs (map (\<lambda>ai. max (k * ai) 0) xs)"
    by (simp add: dot_def)
  also have "\<dots> = k * sum_list (map (\<lambda>ap. ap * ap) (filter (\<lambda>ap. 0 < ap) (x # xs)))"
    using head ih by (simp add: algebra_simps)
  finally show ?case .
qed

lemma clipped_norm:
  "0 \<le> k \<Longrightarrow> dot (map (\<lambda>ai. max (k * ai) 0) a) (map (\<lambda>ai. max (k * ai) 0) a)
     = k * k * sum_list (map (\<lambda>ap. ap * ap) (filter (\<lambda>ap. 0 < ap) a))"
proof (induction a)
  case Nil
  then show ?case by (simp add: dot_def)
next
  case (Cons x xs)
  then have ih: "dot (map (\<lambda>ai. max (k * ai) 0) xs) (map (\<lambda>ai. max (k * ai) 0) xs)
     = k * k * sum_list (map (\<lambda>ap. ap * ap) (filter (\<lambda>ap. 0 < ap) xs))" by simp
  have head: "max (k * x) 0 * max (k * x) 0 = (if 0 < x then k * k * (x * x) else 0)"
  proof (cases "0 < x")
    case True
    with Cons.prems have "0 \<le> k * x" by simp
    then show ?thesis using True by (simp add: max_def)
  next
    case False
    with Cons.prems have "k * x \<le> 0" by (simp add: mult_nonneg_nonpos)
    then show ?thesis using False by (auto simp: max_def)
  qed
  have "dot (map (\<lambda>ai. max (k * ai) 0) (x # xs)) (map (\<lambda>ai. max (k * ai) 0) (x # xs))
      = max (k * x) 0 * max (k * x) 0
        + dot (map (\<lambda>ai. max (k * ai) 0) xs) (map (\<lambda>ai. max (k * ai) 0) xs)"
    by (simp add: dot_def)
  also have "\<dots> = k * k * sum_list (map (\<lambda>ap. ap * ap) (filter (\<lambda>ap. 0 < ap) (x # xs)))"
    using head ih by (simp add: algebra_simps)
  finally show ?case .
qed

lemma clipped_dominates:
  "length a = length r \<Longrightarrow> 0 \<le> k \<Longrightarrow> \<forall>x\<in>set r. 0 \<le> x \<Longrightarrow>
     k * dot a r \<le> dot (map (\<lambda>ai. max (k * ai) 0) a) r"
proof (induction a r rule: list_induct2)
  case Nil
  then show ?case by (simp add: dot_def)
next
  case (Cons x xs y ys)
  then have ih: "k * dot xs ys \<le> dot (map (\<lambda>ai. max (k * ai) 0) xs) ys" by simp
  from Cons.prems have y: "0 \<le> y" by simp
  have "k * x \<le> max (k * x) 0" by simp
  then have "k * x * y \<le> max (k * x) 0 * y"
    using y by (rule mult_right_mono)
  moreover have "dot (x # xs) (y # ys) = x * y + dot xs ys"
    by (simp add: dot_def)
  moreover have "dot (map (\<lambda>ai. max (k * ai) 0) (x # xs)) (y # ys)
      = max (k * x) 0 * y + dot (map (\<lambda>ai. max (k * ai) 0) xs) ys"
    by (simp add: dot_def)
  ultimately show ?case using ih by (simp add: algebra_simps)
qed

lemma dot_square_expand:
  "length u = length v \<Longrightarrow> 2 * dot u v \<le> dot u u + dot v v"
proof (induction u v rule: list_induct2)
  case Nil
  then show ?case by (simp add: dot_def)
next
  case (Cons x xs y ys)
  have "0 \<le> (x - y) * (x - y)" by simp
  then have "2 * (x * y) \<le> x * x + y * y" by (simp add: algebra_simps)
  with Cons.IH show ?case by (simp add: dot_def algebra_simps)
qed

text \<open>
  C2. For a vector \<open>a\<close> with a strictly positive entry and a scalar \<open>b > 0\<close>, the
  function returns the vector with entries \<open>max ((b / S) * a\<^sub>i) 0\<close>, where \<open>S\<close> is the
  sum of the squares of the strictly positive entries of \<open>a\<close>. The result \<open>\<rho>\<close> satisfies
  \<open>a'\<rho> = b\<close>, is nonnegative in every entry, and no nonnegative \<open>\<rho>'\<close> with
  \<open>a'\<rho>' = b\<close> has a smaller squared Euclidean norm.
\<close>

theorem minimal_norm_solution:
  assumes pos: "\<exists>x\<in>set a. 0 < x" and b: "0 < b"
  shows "\<exists>\<rho>. solve_identity_hessian_single_constraint_positive_problem a b = Inr \<rho>
           \<and> \<rho> = map (\<lambda>ai. max 0 ((b / sum_list (map (\<lambda>ap. ap * ap)
                     (filter (\<lambda>ap. 0 < ap) a))) * ai)) a
           \<and> dot a \<rho> = b
           \<and> (\<forall>r\<in>set \<rho>. 0 \<le> r)
           \<and> (\<forall>\<rho>'. length \<rho>' = length a \<and> (\<forall>r\<in>set \<rho>'. 0 \<le> r) \<and> dot a \<rho>' = b
                  \<longrightarrow> dot \<rho> \<rho> \<le> dot \<rho>' \<rho>')"
proof -
  define S where "S = sum_list (map (\<lambda>ap. ap * ap) (filter (\<lambda>ap. 0 < ap) a))"
  define k where "k = b / S"
  define \<rho> where "\<rho> = map (\<lambda>ai. max (k * ai) 0) a"
  have S: "0 < S" unfolding S_def using pos by (rule ap_norm_pos)
  have k: "0 \<le> k" unfolding k_def using b S by simp
  have kS: "k * S = b" unfolding k_def using S by simp
  have ret: "solve_identity_hessian_single_constraint_positive_problem a b = Inr \<rho>"
    using b S
    by (simp add: solve_identity_hessian_single_constraint_positive_problem_def
        S_def [symmetric] \<rho>_def k_def)
  have form: "\<rho> = map (\<lambda>ai. max 0 ((b / S) * ai)) a"
    by (simp add: \<rho>_def k_def max.commute)
  have feas: "dot a \<rho> = b"
    unfolding \<rho>_def using dot_clipped [OF k, of a] kS by (simp add: S_def)
  have nonneg: "\<forall>r\<in>set \<rho>. 0 \<le> r"
    by (auto simp: \<rho>_def)
  have norm: "dot \<rho> \<rho> = k * b"
    unfolding \<rho>_def using clipped_norm [OF k, of a] kS
    by (simp add: S_def [symmetric] mult.assoc)
  have minimal: "dot \<rho> \<rho> \<le> dot \<rho>' \<rho>'"
    if len: "length \<rho>' = length a" and nn: "\<forall>r\<in>set \<rho>'. 0 \<le> r" and fe: "dot a \<rho>' = b"
    for \<rho>'
  proof -
    have "k * dot a \<rho>' \<le> dot \<rho> \<rho>'"
      unfolding \<rho>_def using len k nn by (intro clipped_dominates) simp_all
    then have cross: "dot \<rho> \<rho> \<le> dot \<rho> \<rho>'" using fe norm by simp
    have "length \<rho> = length \<rho>'" using len by (simp add: \<rho>_def)
    then have "2 * dot \<rho> \<rho>' \<le> dot \<rho> \<rho> + dot \<rho>' \<rho>'" by (rule dot_square_expand)
    with cross show ?thesis by simp
  qed
  show ?thesis
    using ret form feas nonneg minimal unfolding S_def by blast
qed

theorem minimal_norm_solution_witness:
  "(\<exists>x\<in>set [3, - 1, 4 :: real]. 0 < x) \<and> (0 :: real) < 5
   \<and> solve_identity_hessian_single_constraint_positive_problem [3, - 1, 4] 5
       = Inr [3 / 5, 0, 4 / 5]
   \<and> dot [3, - 1, 4] [3 / 5, 0, 4 / 5] = 5
   \<and> dot [3 / 5, 0, 4 / 5] [3 / 5, 0, 4 / 5] \<le> dot [1, 2, 1] [1, 2, 1]"
proof -
  have h1: "\<exists>x\<in>set [3, - 1, 4 :: real]. 0 < x" by simp
  have h2: "(0 :: real) < 5" by simp
  obtain \<rho> where ret: "solve_identity_hessian_single_constraint_positive_problem [3, - 1, 4] 5 = Inr \<rho>"
    and feas: "dot [3, - 1, 4] \<rho> = 5"
    and minimal: "\<forall>\<rho>'. length \<rho>' = length [3, - 1, 4 :: real] \<and> (\<forall>r\<in>set \<rho>'. 0 \<le> r)
                    \<and> dot [3, - 1, 4] \<rho>' = 5 \<longrightarrow> dot \<rho> \<rho> \<le> dot \<rho>' \<rho>'"
    using minimal_norm_solution [OF h1 h2] by blast
  have val: "solve_identity_hessian_single_constraint_positive_problem [3, - 1, 4] 5
      = Inr [3 / 5, 0, 4 / 5]"
    by (simp add: solve_identity_hessian_single_constraint_positive_problem_def)
  with ret have eq: "\<rho> = [3 / 5, 0, 4 / 5]" by simp
  have "length [1, 2, 1 :: real] = length [3, - 1, 4 :: real] \<and> (\<forall>r\<in>set [1, 2, 1 :: real]. 0 \<le> r)
      \<and> dot [3, - 1, 4] [1, 2, 1] = 5"
    by (simp add: dot_def)
  with minimal have "dot \<rho> \<rho> \<le> dot [1, 2, 1] [1, 2, 1]" by blast
  with h1 h2 val feas eq show ?thesis by simp
qed

section \<open>Frame of the gradient computation\<close>

lemma jacobian_loop_frame:
  "jacobian_loop s x idx = (s', r) \<Longrightarrow> \<exists>J. s' = s\<lparr>jacobian_k := J\<rparr>"
proof (induction idx arbitrary: s)
  case Nil
  then have "s' = s\<lparr>jacobian_k := jacobian_k s\<rparr>" by simp
  then show ?case by blast
next
  case (Cons i idx)
  have same: "s = s\<lparr>jacobian_k := jacobian_k s\<rparr>" by simp
  show ?case
  proof (cases "constraint_gradient s i x")
    case (Inl e)
    with Cons.prems have "s' = s" by simp
    with same show ?thesis by metis
  next
    case (Inr grad)
    show ?thesis
    proof (cases "jacobian_k s")
      case None
      with Inr Cons.prems have "s' = s" by simp
      with same show ?thesis by metis
    next
      case (Some J)
      define s1 where "s1 = s\<lparr>jacobian_k :=
          Some (J[i := take (length (J ! i)) grad @ drop (length grad) (J ! i)])\<rparr>"
      show ?thesis
      proof (cases "length (J ! i) < length grad")
        case True
        with Inr Some Cons.prems have "s' = s1" by (simp add: s1_def Let_def)
        then show ?thesis unfolding s1_def by blast
      next
        case False
        with Inr Some Cons.prems have "jacobian_loop s1 x idx = (s', r)"
          by (simp add: s1_def Let_def)
        then obtain J' where "s' = s1\<lparr>jacobian_k := J'\<rparr>" using Cons.IH by blast
        then have "s' = s\<lparr>jacobian_k := J'\<rparr>" by (simp add: s1_def)
        then show ?thesis by blast
      qed
    qed
  qed
qed

lemma compute_gradients_frame:
  assumes "compute_gradients s x = (s', r)"
  shows "\<exists>g J u. s' = s\<lparr>f_grad_k := g, jacobian_k := J,
                 x_used_for_gradient_computation := u\<rparr>"
proof -
  have same: "s = s\<lparr>f_grad_k := f_grad_k s, jacobian_k := jacobian_k s,
                 x_used_for_gradient_computation := x_used_for_gradient_computation s\<rparr>"
    by simp
  show ?thesis
  proof (cases "x_used_for_gradient_computation s = Some x")
    case True
    with assms have "s' = s" by (simp add: compute_gradients_def)
    with same show ?thesis by metis
  next
    case False
    show ?thesis
    proof (cases "case f_grad s of Some g \<Rightarrow> Inr (g x) | None \<Rightarrow> finite_difference_grad s (f s) x")
      case (Inl e)
      with False assms have "s' = s" by (simp add: compute_gradients_def)
      with same show ?thesis by metis
    next
      case (Inr gk)
      define s1 where "s1 = s\<lparr>f_grad_k := Some gk,
          jacobian_k := Some (zero_mat (length (cs s)) (length x))\<rparr>"
      obtain s2 r2 where jl: "jacobian_loop s1 x [0..<length (cs s)] = (s2, r2)"
        by (cases "jacobian_loop s1 x [0..<length (cs s)]")
      then obtain J where fr: "s2 = s1\<lparr>jacobian_k := J\<rparr>"
        using jacobian_loop_frame by blast
      from False Inr jl assms
      have "s' = s2 \<or> s' = s2\<lparr>x_used_for_gradient_computation := Some x\<rparr>"
        by (auto simp add: compute_gradients_def Let_def s1_def split: sum.splits)
      then show ?thesis
      proof
        assume "s' = s2"
        with fr have "s' = s\<lparr>f_grad_k := Some gk, jacobian_k := J,
            x_used_for_gradient_computation := x_used_for_gradient_computation s\<rparr>"
          by (simp add: s1_def)
        then show ?thesis by blast
      next
        assume "s' = s2\<lparr>x_used_for_gradient_computation := Some x\<rparr>"
        with fr have "s' = s\<lparr>f_grad_k := Some gk, jacobian_k := J,
            x_used_for_gradient_computation := Some x\<rparr>"
          by (simp add: s1_def)
        then show ?thesis by blast
      qed
    qed
  qed
qed

lemma compute_gradients_fields:
  assumes "compute_gradients s x = (s', r)"
  shows "f s' = f s" "f_grad s' = f_grad s" "cs s' = cs s" "c_grads s' = c_grads s"
    "rho s' = rho s" "tol s' = tol s" "minor_tol s' = minor_tol s" "eta s' = eta s"
    "hessian_approximation s' = hessian_approximation s"
    "evaluate_constraints s' = evaluate_constraints s"
proof -
  obtain g J u where "s' = s\<lparr>f_grad_k := g, jacobian_k := J,
                 x_used_for_gradient_computation := u\<rparr>"
    using compute_gradients_frame [OF assms] by blast
  then show "f s' = f s" "f_grad s' = f_grad s" "cs s' = cs s" "c_grads s' = c_grads s"
    "rho s' = rho s" "tol s' = tol s" "minor_tol s' = minor_tol s" "eta s' = eta s"
    "hessian_approximation s' = hessian_approximation s"
    "evaluate_constraints s' = evaluate_constraints s"
    by (simp_all add: evaluate_constraints_def fun_eq_iff)
qed

section \<open>Penalty update: properties\<close>

lemma py_max_Max: "xs \<noteq> [] \<Longrightarrow> py_max xs = Inr (Max (set xs))"
proof (cases xs)
  case Nil
  assume "xs \<noteq> []"
  with Nil show ?thesis by simp
next
  case (Cons x ys)
  then show ?thesis by (simp only: py_max.simps Max.set_eq_fold)
qed

lemma py_min_Min: "xs \<noteq> [] \<Longrightarrow> py_min xs = Inr (Min (set xs))"
proof (cases xs)
  case Nil
  assume "xs \<noteq> []"
  with Nil show ?thesis by simp
next
  case (Cons x ys)
  then show ?thesis by (simp only: py_min.simps Min.set_eq_fold)
qed

lemma py_max_pos_iff:
  assumes "py_max xs = Inr mx"
  shows "0 < mx \<longleftrightarrow> (\<exists>a\<in>set xs. 0 < a)"
proof -
  from assms have ne: "xs \<noteq> []" by (cases xs) simp_all
  with assms have "mx = Max (set xs)" by (simp add: py_max_Max)
  moreover have "0 < Max (set xs) \<longleftrightarrow> (\<exists>a\<in>set xs. 0 < a)"
    using ne by (subst Max_gr_iff) simp_all
  ultimately show ?thesis by simp
qed

lemma py_min_neg_iff:
  assumes "py_min xs = Inr mn"
  shows "mn < 0 \<longleftrightarrow> (\<exists>a\<in>set xs. a < 0)"
proof -
  from assms have ne: "xs \<noteq> []" by (cases xs) simp_all
  with assms have "mn = Min (set xs)" by (simp add: py_min_Min)
  moreover have "Min (set xs) < 0 \<longleftrightarrow> (\<exists>a\<in>set xs. a < 0)"
    using ne by (subst Min_less_iff) simp_all
  ultimately show ?thesis by simp
qed

lemma closed_form_value:
  assumes "\<exists>x\<in>set a. 0 < x" and "0 < b"
  shows "solve_identity_hessian_single_constraint_positive_problem a b
       = Inr (map (\<lambda>ai. max 0 ((b / sum_list (map (\<lambda>ap. ap * ap)
                     (filter (\<lambda>ap. 0 < ap) a))) * ai)) a)"
proof -
  have "0 < sum_list (map (\<lambda>ap. ap * ap) (filter (\<lambda>ap. 0 < ap) a))"
    using assms(1) by (rule ap_norm_pos)
  with assms(2) show ?thesis
    by (simp add: solve_identity_hessian_single_constraint_positive_problem_def max.commute)
qed

text \<open>
  C6. After the gradients at \<open>x_k\<close> are available, \<^verbatim>\<open>_update_rho\<close> forms
  \<open>a\<^sub>j = (c\<^sub>j(x_k) - s_k\<^sub>j)\<^sup>2\<close> and the scalar
  \<open>b = g'p_x + (pi_k - p_pi)'(c - s_k) - p_x' H p_x / 2\<close>. The penalty vector after the
  call is the closed-form solution for \<open>(a, b)\<close> when \<open>b > 0\<close> and some \<open>a\<^sub>j > 0\<close>, and
  the penalty vector of before the call in every other case. The call raises only when
  \<open>b > 0\<close> and there is no constraint.
\<close>

theorem update_rho_replaces_or_keeps:
  assumes grads: "compute_gradients s x_k = (s1, Inr ())"
    and g: "f_grad_k s1 = Some g"
    and H: "hessian_approximation s1 = Some H"
  shows "let a = map (\<lambda>c. c ^ 2) (vec_sub (evaluate_constraints s x_k) s_k);
             p_x = vec_sub x_hat x_k;
             b = dot g p_x
                 + dot (vec_sub pi_k (vec_sub pi_hat pi_k))
                       (vec_sub (evaluate_constraints s x_k) s_k)
                 - 0.5 * dot p_x (mat_vec H p_x);
             r = update_rho s x_k s_k pi_k x_hat pi_hat
         in rho (fst r) =
              (if 0 < b \<and> (\<exists>aj\<in>set a. 0 < aj)
               then map (\<lambda>aj. max 0 ((b / sum_list (map (\<lambda>ap. ap * ap)
                              (filter (\<lambda>ap. 0 < ap) a))) * aj)) a
               else rho s)
            \<and> snd r = (if 0 < b \<and> a = [] then Inl EmptySequence else Inr ())"
proof -
  define a where "a = map (\<lambda>c. c ^ 2) (vec_sub (evaluate_constraints s x_k) s_k)"
  define p_x where "p_x = vec_sub x_hat x_k"
  define b where "b = dot g p_x
                 + dot (vec_sub pi_k (vec_sub pi_hat pi_k))
                       (vec_sub (evaluate_constraints s x_k) s_k)
                 - 0.5 * dot p_x (mat_vec H p_x)"
  define r where "r = update_rho s x_k s_k pi_k x_hat pi_hat"
  have ev: "evaluate_constraints s1 = evaluate_constraints s" and rs: "rho s1 = rho s"
    using compute_gradients_fields [OF grads] by simp_all
  have unfold: "r = (if b > 0 then
                 (case py_max a of
                    Inl e \<Rightarrow> (s1, Inl e)
                  | Inr mx \<Rightarrow>
                     if mx > 0 then
                       (case solve_identity_hessian_single_constraint_positive_problem a b of
                          Inl e \<Rightarrow> (s1, Inl e)
                        | Inr rho_star \<Rightarrow> (s1\<lparr>rho := rho_star\<rparr>, Inr ()))
                     else (s1, Inr ()))
               else (s1, Inr ()))"
    unfolding r_def update_rho_def a_def b_def p_x_def Let_def
    by (simp only: grads g H ev prod.case sum.case option.case)
  have goal: "rho (fst r) =
              (if 0 < b \<and> (\<exists>aj\<in>set a. 0 < aj)
               then map (\<lambda>aj. max 0 ((b / sum_list (map (\<lambda>ap. ap * ap)
                              (filter (\<lambda>ap. 0 < ap) a))) * aj)) a
               else rho s)
            \<and> snd r = (if 0 < b \<and> a = [] then Inl EmptySequence else Inr ())"
  proof (cases "0 < b")
    case False
    with unfold rs show ?thesis by simp
  next
    case bpos: True
    show ?thesis
    proof (cases a)
      case Nil
      with unfold bpos rs show ?thesis by simp
    next
      case (Cons a0 as)
      then have ne: "a \<noteq> []" by simp
      then have mx: "py_max a = Inr (Max (set a))" by (rule py_max_Max)
      show ?thesis
      proof (cases "\<exists>aj\<in>set a. 0 < aj")
        case True
        then have "0 < Max (set a)" using py_max_pos_iff [OF mx] by simp
        with unfold bpos mx closed_form_value [OF True bpos] True ne
        show ?thesis by simp
      next
        case False
        then have "\<not> 0 < Max (set a)" using py_max_pos_iff [OF mx] by simp
        with unfold bpos mx False ne rs show ?thesis by simp
      qed
    qed
  qed
  show ?thesis
    unfolding Let_def using goal unfolding a_def b_def p_x_def r_def .
qed

theorem update_rho_replaces_or_keeps_witness:
  "compute_gradients
     ((Sqp_init (\<lambda>x. x ! 0) (Some (\<lambda>x. [1])) [\<lambda>x. x ! 0] [Some (\<lambda>x. [1])] (1 / 100))
        \<lparr>hessian_approximation := Some [[1]]\<rparr>) [1]
     = ((Sqp_init (\<lambda>x. x ! 0) (Some (\<lambda>x. [1])) [\<lambda>x. x ! 0] [Some (\<lambda>x. [1])] (1 / 100))
        \<lparr>hessian_approximation := Some [[1]], f_grad_k := Some [1],
          jacobian_k := Some [[1]], x_used_for_gradient_computation := Some [1]\<rparr>, Inr ())
   \<and> rho (fst (update_rho
        ((Sqp_init (\<lambda>x. x ! 0) (Some (\<lambda>x. [1])) [\<lambda>x. x ! 0] [Some (\<lambda>x. [1])] (1 / 100))
           \<lparr>hessian_approximation := Some [[1]]\<rparr>) [1] [0] [0] [2] [0])) = [1 / 2]
   \<and> rho (fst (update_rho
        ((Sqp_init (\<lambda>x. x ! 0) (Some (\<lambda>x. [1])) [\<lambda>x. x ! 0] [Some (\<lambda>x. [1])] (1 / 100))
           \<lparr>hessian_approximation := Some [[1]]\<rparr>) [1] [0] [0] [3] [0])) = [0]"
proof -
  define s where "s = (Sqp_init (\<lambda>x. x ! 0) (Some (\<lambda>x. [1])) [\<lambda>x. x ! 0]
      [Some (\<lambda>x. [1])] (1 / 100))\<lparr>hessian_approximation := Some [[1]]\<rparr>"
  define s1 where "s1 = s\<lparr>f_grad_k := Some [1], jacobian_k := Some [[1]],
      x_used_for_gradient_computation := Some [1]\<rparr>"
  have grads: "compute_gradients s [1] = (s1, Inr ())"
    by (simp add: s_def s1_def Sqp_init_def compute_gradients_def zero_mat_def zeros_def
        constraint_gradient_def)
  have g: "f_grad_k s1 = Some [1]" by (simp add: s1_def)
  have H: "hessian_approximation s1 = Some [[1]]" by (simp add: s1_def s_def)
  have ev: "evaluate_constraints s [1] = [1]"
    by (simp add: evaluate_constraints_def s_def Sqp_init_def)
  have r0: "rho s = [0]" by (simp add: s_def Sqp_init_def)
  have a: "rho (fst (update_rho s [1] [0] [0] [2] [0])) = [1 / 2]"
    using update_rho_replaces_or_keeps [OF grads g H, of "[0]" "[2]" "[0]" "[0]"]
    by (simp add: Let_def ev vec_sub_def dot_def mat_vec_def)
  have b: "rho (fst (update_rho s [1] [0] [0] [3] [0])) = [0]"
    using update_rho_replaces_or_keeps [OF grads g H, of "[0]" "[3]" "[0]" "[0]"]
    by (simp add: Let_def ev vec_sub_def dot_def mat_vec_def r0)
  from grads a b show ?thesis unfolding s1_def s_def by simp
qed

section \<open>The subproblem call and the start of a solve\<close>

lemma compute_gradients_cached:
  "x_used_for_gradient_computation s = Some x \<Longrightarrow> compute_gradients s x = (s, Inr ())"
  by (simp add: compute_gradients_def)

lemma solve_qp_rho: "rho (fst (solve_qp qp s x_k)) = rho s"
proof -
  obtain s1 r where cg: "compute_gradients s x_k = (s1, r)"
    by (cases "compute_gradients s x_k")
  then have "rho s1 = rho s" by (rule compute_gradients_fields)
  then show ?thesis
    by (simp add: solve_qp_def cg Let_def split: option.splits sum.splits prod.splits)
qed

text \<open>
  C10. The constructor creates the penalty vector as zeros, one per constraint.
  \<^verbatim>\<open>solve\<close> runs its loop from the solver it is called on with only the Hessian
  approximation replaced by the identity, from \<open>x0\<close> and zero slacks and multipliers;
  the penalty vector that the first line search receives, after the gradient computation
  and the subproblem, is the one the solver had when \<^verbatim>\<open>solve\<close> was called, and a call
  with no iteration returns the solver with that penalty vector.
\<close>

theorem solve_keeps_rho:
  "rho (Sqp_init f0 f_grad0 cs0 c_grads0 tol0) = replicate (length cs0) 0
   \<and> solve qp s x0 max_iter =
       (case solve_loop qp max_iter (s\<lparr>hessian_approximation := Some (identity (length x0))\<rparr>)
               x0 (zeros (length (cs s))) (zeros (length (cs s))) of
          (s', Inl e) \<Rightarrow> (s', Inl e)
        | (s', Inr (x_k, s_k, pi_k)) \<Rightarrow> (s', Inr (x_k, f s' x_k, evaluate_constraints s' x_k)))
   \<and> rho (fst (solve_qp qp
          (fst (compute_gradients
                  (s\<lparr>hessian_approximation := Some (identity (length x0))\<rparr>) x0)) x0))
       = rho s
   \<and> rho (fst (solve qp s x0 0)) = rho s"
proof -
  define s1 where "s1 = s\<lparr>hessian_approximation := Some (identity (length x0))\<rparr>"
  have init: "rho (Sqp_init f0 f_grad0 cs0 c_grads0 tol0) = replicate (length cs0) 0"
    by (simp add: Sqp_init_def)
  have run: "solve qp s x0 max_iter =
       (case solve_loop qp max_iter s1 x0 (zeros (length (cs s))) (zeros (length (cs s))) of
          (s', Inl e) \<Rightarrow> (s', Inl e)
        | (s', Inr (x_k, s_k, pi_k)) \<Rightarrow> (s', Inr (x_k, f s' x_k, evaluate_constraints s' x_k)))"
    by (simp add: solve_def s1_def Let_def)
  obtain s2 r where cg: "compute_gradients s1 x0 = (s2, r)"
    by (cases "compute_gradients s1 x0")
  then have "rho s2 = rho s1" by (rule compute_gradients_fields)
  then have "rho (fst (solve_qp qp (fst (compute_gradients s1 x0)) x0)) = rho s1"
    by (simp add: solve_qp_rho cg)
  moreover have "rho s1 = rho s" by (simp add: s1_def)
  ultimately have first: "rho (fst (solve_qp qp (fst (compute_gradients s1 x0)) x0)) = rho s"
    by simp
  have none: "rho (fst (solve qp s x0 0)) = rho s"
    by (simp add: solve_def Let_def)
  from init run first none show ?thesis unfolding s1_def by blast
qed

section \<open>Line search: properties\<close>

lemma merit_loop_sum:
  "\<forall>j\<in>set idx. j < length (rho s) \<and> j < length sv \<Longrightarrow>
     merit_loop s csv sv idx phi
       = Inr (phi + sum_list (map (\<lambda>j. 0.5 * rho s ! j * (csv ! j - sv ! j) ^ 2) idx))"
  by (induction idx arbitrary: phi) (simp_all add: add.assoc)

lemma merit_function_value:
  assumes "length (cs s) \<le> length (rho s)" and "length (cs s) \<le> length sv"
  shows "merit_function s x sv pi_v = Inr (merit_value s x sv pi_v)"
proof -
  let ?m = "length (cs s)"
  let ?csv = "evaluate_constraints s x"
  have len: "length ?csv = ?m" by (simp add: evaluate_constraints_def)
  have idx: "\<forall>j\<in>set [0..<?m]. j < length (rho s) \<and> j < length sv"
    using assms by auto
  have "sum_list (map (\<lambda>j. 0.5 * rho s ! j * (?csv ! j - sv ! j) ^ 2) [0..<?m])
      = (\<Sum>j<?m. 0.5 * rho s ! j * (?csv ! j - sv ! j) ^ 2)"
    by (simp add: interv_sum_list_conv_sum_set_nat atLeast0LessThan)
  also have "\<dots> = (\<Sum>j<?m. (rho s ! j * ((cs s ! j) x - sv ! j) ^ 2) / 2)"
    by (rule sum.cong) (simp_all add: evaluate_constraints_def)
  also have "\<dots> = (\<Sum>j<?m. rho s ! j * ((cs s ! j) x - sv ! j) ^ 2) / 2"
    by (simp add: sum_divide_distrib)
  finally have "sum_list (map (\<lambda>j. 0.5 * rho s ! j * (?csv ! j - sv ! j) ^ 2) [0..<?m])
      = (\<Sum>j<?m. rho s ! j * ((cs s ! j) x - sv ! j) ^ 2) / 2" .
  then show ?thesis
    unfolding merit_function_def Let_def len merit_value_def
    using merit_loop_sum [OF idx] by simp
qed

lemma length_convex_combination:
  "length (convex_combination alpha u v) = min (length u) (length v)"
  by (simp add: convex_combination_def vec_add_def scal_def)

lemma line_search_loop_unfold:
  assumes "length (cs s) \<le> length (rho s)"
    and "length (cs s) \<le> length s_k" and "length (cs s) \<le> length s_hat"
  shows "line_search_loop s (Suc n) alpha m0 x_k s_k pi_k x_hat s_hat pi_hat =
     (if merit_value s (convex_combination alpha x_k x_hat)
            (convex_combination alpha s_k s_hat) (convex_combination alpha pi_k pi_hat) < m0
      then Inr (convex_combination alpha x_k x_hat, convex_combination alpha s_k s_hat,
                convex_combination alpha pi_k pi_hat, alpha)
      else line_search_loop s n (alpha / 2) m0 x_k s_k pi_k x_hat s_hat pi_hat)"
proof -
  have "length (cs s) \<le> length (convex_combination alpha s_k s_hat)"
    using assms by (simp add: length_convex_combination)
  then have "merit_function s (convex_combination alpha x_k x_hat)
            (convex_combination alpha s_k s_hat) (convex_combination alpha pi_k pi_hat)
      = Inr (merit_value s (convex_combination alpha x_k x_hat)
            (convex_combination alpha s_k s_hat) (convex_combination alpha pi_k pi_hat))"
    using assms(1) by (intro merit_function_value) simp_all
  then show ?thesis
    by (simp add: Let_def convex_combination_def)
qed

lemma line_search_loop_exhausted:
  assumes "length (cs s) \<le> length (rho s)"
    and "length (cs s) \<le> length s_k" and "length (cs s) \<le> length s_hat"
  shows "(\<forall>j<n. \<not> merit_value s (convex_combination (alpha / 2 ^ j) x_k x_hat)
            (convex_combination (alpha / 2 ^ j) s_k s_hat)
            (convex_combination (alpha / 2 ^ j) pi_k pi_hat) < m0) \<Longrightarrow>
     line_search_loop s n alpha m0 x_k s_k pi_k x_hat s_hat pi_hat = Inl LineSearchFailure"
proof (induction n arbitrary: alpha)
  case 0
  then show ?case by simp
next
  case (Suc n)
  have "0 < Suc n" by simp
  with Suc.prems have "\<not> merit_value s (convex_combination (alpha / 2 ^ 0) x_k x_hat)
            (convex_combination (alpha / 2 ^ 0) s_k s_hat)
            (convex_combination (alpha / 2 ^ 0) pi_k pi_hat) < m0"
    by blast
  then have first: "\<not> merit_value s (convex_combination alpha x_k x_hat)
            (convex_combination alpha s_k s_hat)
            (convex_combination alpha pi_k pi_hat) < m0"
    by simp
  have rest: "\<forall>j<n. \<not> merit_value s (convex_combination (alpha / 2 / 2 ^ j) x_k x_hat)
            (convex_combination (alpha / 2 / 2 ^ j) s_k s_hat)
            (convex_combination (alpha / 2 / 2 ^ j) pi_k pi_hat) < m0"
  proof (intro allI impI)
    fix j assume "j < n"
    then have "Suc j < Suc n" by simp
    with Suc.prems have "\<not> merit_value s (convex_combination (alpha / 2 ^ Suc j) x_k x_hat)
            (convex_combination (alpha / 2 ^ Suc j) s_k s_hat)
            (convex_combination (alpha / 2 ^ Suc j) pi_k pi_hat) < m0"
      by blast
    then show "\<not> merit_value s (convex_combination (alpha / 2 / 2 ^ j) x_k x_hat)
            (convex_combination (alpha / 2 / 2 ^ j) s_k s_hat)
            (convex_combination (alpha / 2 / 2 ^ j) pi_k pi_hat) < m0"
      by simp
  qed
  show ?case
    using first Suc.IH [OF rest] by (simp only: line_search_loop_unfold [OF assms] if_False)
qed

lemma line_search_loop_first:
  assumes "length (cs s) \<le> length (rho s)"
    and "length (cs s) \<le> length s_k" and "length (cs s) \<le> length s_hat"
  shows "j < n \<Longrightarrow>
     merit_value s (convex_combination (alpha / 2 ^ j) x_k x_hat)
            (convex_combination (alpha / 2 ^ j) s_k s_hat)
            (convex_combination (alpha / 2 ^ j) pi_k pi_hat) < m0 \<Longrightarrow>
     (\<forall>i<j. \<not> merit_value s (convex_combination (alpha / 2 ^ i) x_k x_hat)
            (convex_combination (alpha / 2 ^ i) s_k s_hat)
            (convex_combination (alpha / 2 ^ i) pi_k pi_hat) < m0) \<Longrightarrow>
     line_search_loop s n alpha m0 x_k s_k pi_k x_hat s_hat pi_hat
       = Inr (convex_combination (alpha / 2 ^ j) x_k x_hat,
              convex_combination (alpha / 2 ^ j) s_k s_hat,
              convex_combination (alpha / 2 ^ j) pi_k pi_hat, alpha / 2 ^ j)"
proof (induction n arbitrary: alpha j)
  case 0
  then show ?case by simp
next
  case (Suc n)
  note prems = Suc.prems and IH = Suc.IH
  show ?case
  proof (cases j)
    case 0
    with prems(2) show ?thesis
      by (simp del: line_search_loop.simps add: line_search_loop_unfold [OF assms])
  next
    case j: (Suc j')
    have "0 < j" using j by simp
    with prems(3) have "\<not> merit_value s (convex_combination (alpha / 2 ^ 0) x_k x_hat)
            (convex_combination (alpha / 2 ^ 0) s_k s_hat)
            (convex_combination (alpha / 2 ^ 0) pi_k pi_hat) < m0"
      by blast
    then have first: "\<not> merit_value s (convex_combination alpha x_k x_hat)
            (convex_combination alpha s_k s_hat)
            (convex_combination alpha pi_k pi_hat) < m0"
      by simp
    have shift: "alpha / 2 / 2 ^ i = alpha / 2 ^ Suc i" for i
      by simp
    from j prems(1) have j': "j' < n" by simp
    have hit: "merit_value s (convex_combination (alpha / 2 / 2 ^ j') x_k x_hat)
            (convex_combination (alpha / 2 / 2 ^ j') s_k s_hat)
            (convex_combination (alpha / 2 / 2 ^ j') pi_k pi_hat) < m0"
      using prems(2) unfolding j shift .
    have before: "\<forall>i<j'. \<not> merit_value s (convex_combination (alpha / 2 / 2 ^ i) x_k x_hat)
            (convex_combination (alpha / 2 / 2 ^ i) s_k s_hat)
            (convex_combination (alpha / 2 / 2 ^ i) pi_k pi_hat) < m0"
    proof (intro allI impI)
      fix i assume "i < j'"
      then have "Suc i < j" using j by simp
      with prems(3) have "\<not> merit_value s (convex_combination (alpha / 2 ^ Suc i) x_k x_hat)
            (convex_combination (alpha / 2 ^ Suc i) s_k s_hat)
            (convex_combination (alpha / 2 ^ Suc i) pi_k pi_hat) < m0"
        by blast
      then show "\<not> merit_value s (convex_combination (alpha / 2 / 2 ^ i) x_k x_hat)
            (convex_combination (alpha / 2 / 2 ^ i) s_k s_hat)
            (convex_combination (alpha / 2 / 2 ^ i) pi_k pi_hat) < m0"
        unfolding shift .
    qed
    have "line_search_loop s n (alpha / 2) m0 x_k s_k pi_k x_hat s_hat pi_hat
       = Inr (convex_combination (alpha / 2 / 2 ^ j') x_k x_hat,
              convex_combination (alpha / 2 / 2 ^ j') s_k s_hat,
              convex_combination (alpha / 2 / 2 ^ j') pi_k pi_hat, alpha / 2 / 2 ^ j')"
      using j' hit before by (rule IH)
    then show ?thesis
      unfolding j line_search_loop_unfold [OF assms] shift using first by simp
  qed
qed

text \<open>
  C5. After the penalty update, \<^verbatim>\<open>_line_search\<close> tries the step lengths
  \<open>1, 1/2, \<dots>, 1/2\<^sup>2\<^sup>9\<close> in this order. It returns the convex combinations of
  \<open>(x_k, s_k, pi_k)\<close> and \<open>(x_hat, s_hat, pi_hat)\<close> at the first step length whose merit
  value is strictly below the merit value at \<open>(x_k, s_k, pi_k)\<close>, together with that step
  length. When none of the thirty trials improves, it fails with \<open>LineSearchFailure\<close>,
  and the iteration of \<^verbatim>\<open>solve\<close> that called it ends the loop with that failure.
\<close>

theorem line_search_backtracking:
  assumes upd: "update_rho s x_k s_k pi_k x_hat pi_hat = (s1, Inr ())"
    and len_rho: "length (cs s1) \<le> length (rho s1)"
    and len_sk: "length (cs s1) \<le> length s_k"
    and len_sh: "length (cs s1) \<le> length s_hat"
  shows "(\<forall>j<30.
            merit_value s1 (convex_combination (1 / 2 ^ j) x_k x_hat)
               (convex_combination (1 / 2 ^ j) s_k s_hat)
               (convex_combination (1 / 2 ^ j) pi_k pi_hat) < merit_value s1 x_k s_k pi_k
            \<and> (\<forall>i<j. \<not> merit_value s1 (convex_combination (1 / 2 ^ i) x_k x_hat)
                   (convex_combination (1 / 2 ^ i) s_k s_hat)
                   (convex_combination (1 / 2 ^ i) pi_k pi_hat) < merit_value s1 x_k s_k pi_k)
            \<longrightarrow> line_search s x_k s_k pi_k x_hat s_hat pi_hat
                  = (s1, Inr (convex_combination (1 / 2 ^ j) x_k x_hat,
                              convex_combination (1 / 2 ^ j) s_k s_hat,
                              convex_combination (1 / 2 ^ j) pi_k pi_hat, 1 / 2 ^ j)))
         \<and> ((\<forall>j<30. \<not> merit_value s1 (convex_combination (1 / 2 ^ j) x_k x_hat)
                   (convex_combination (1 / 2 ^ j) s_k s_hat)
                   (convex_combination (1 / 2 ^ j) pi_k pi_hat) < merit_value s1 x_k s_k pi_k)
            \<longrightarrow> line_search s x_k s_k pi_k x_hat s_hat pi_hat = (s1, Inl LineSearchFailure)
                \<and> (\<forall>qp s0 sa k iteration.
                      compute_gradients s0 x_k = (sa, Inr ())
                      \<and> solve_qp qp sa x_k = (s, Inr (x_hat, s_hat, pi_hat, iteration))
                      \<longrightarrow> solve_loop qp (Suc k) s0 x_k s_k pi_k
                            = (s1, Inl LineSearchFailure)))"
proof -
  have m0: "merit_function s1 x_k s_k pi_k = Inr (merit_value s1 x_k s_k pi_k)"
    using len_rho len_sk by (rule merit_function_value)
  have ls: "line_search s x_k s_k pi_k x_hat s_hat pi_hat
      = (s1, line_search_loop s1 30 1 (merit_value s1 x_k s_k pi_k)
               x_k s_k pi_k x_hat s_hat pi_hat)"
    by (simp add: line_search_def upd m0)
  have found: "line_search s x_k s_k pi_k x_hat s_hat pi_hat
                  = (s1, Inr (convex_combination (1 / 2 ^ j) x_k x_hat,
                              convex_combination (1 / 2 ^ j) s_k s_hat,
                              convex_combination (1 / 2 ^ j) pi_k pi_hat, 1 / 2 ^ j))"
    if "j < 30"
      and "merit_value s1 (convex_combination (1 / 2 ^ j) x_k x_hat)
               (convex_combination (1 / 2 ^ j) s_k s_hat)
               (convex_combination (1 / 2 ^ j) pi_k pi_hat) < merit_value s1 x_k s_k pi_k"
      and "\<forall>i<j. \<not> merit_value s1 (convex_combination (1 / 2 ^ i) x_k x_hat)
                   (convex_combination (1 / 2 ^ i) s_k s_hat)
                   (convex_combination (1 / 2 ^ i) pi_k pi_hat) < merit_value s1 x_k s_k pi_k"
    for j
    using line_search_loop_first [OF len_rho len_sk len_sh that] ls by simp
  have failed: "line_search s x_k s_k pi_k x_hat s_hat pi_hat = (s1, Inl LineSearchFailure)"
    if "\<forall>j<30. \<not> merit_value s1 (convex_combination (1 / 2 ^ j) x_k x_hat)
                   (convex_combination (1 / 2 ^ j) s_k s_hat)
                   (convex_combination (1 / 2 ^ j) pi_k pi_hat) < merit_value s1 x_k s_k pi_k"
    using line_search_loop_exhausted [OF len_rho len_sk len_sh that] ls by simp
  have abort: "solve_loop qp (Suc k) s0 x_k s_k pi_k = (s1, Inl LineSearchFailure)"
    if "line_search s x_k s_k pi_k x_hat s_hat pi_hat = (s1, Inl LineSearchFailure)"
      and "compute_gradients s0 x_k = (sa, Inr ())"
      and "solve_qp qp sa x_k = (s, Inr (x_hat, s_hat, pi_hat, iteration))"
    for qp s0 sa k iteration
    using that by simp
  from found failed abort show ?thesis by blast
qed

theorem line_search_backtracking_witness:
  "line_search
     ((Sqp_init (\<lambda>x. (x ! 0) ^ 2) (Some (\<lambda>x. [2 * x ! 0])) [\<lambda>x. x ! 0]
         [Some (\<lambda>x. [1])] (1 / 100))
        \<lparr>hessian_approximation := Some [[1]], f_grad_k := Some [2],
          jacobian_k := Some [[1]], x_used_for_gradient_computation := Some [1]\<rparr>)
     [1] [1] [0] [- 3] [1] [0]
   = ((Sqp_init (\<lambda>x. (x ! 0) ^ 2) (Some (\<lambda>x. [2 * x ! 0])) [\<lambda>x. x ! 0]
         [Some (\<lambda>x. [1])] (1 / 100))
        \<lparr>hessian_approximation := Some [[1]], f_grad_k := Some [2],
          jacobian_k := Some [[1]], x_used_for_gradient_computation := Some [1]\<rparr>,
      Inr ([0], [1], [0], 1 / 4))
   \<and> line_search
     ((Sqp_init (\<lambda>x. (x ! 0) ^ 2) (Some (\<lambda>x. [2 * x ! 0])) [\<lambda>x. x ! 0]
         [Some (\<lambda>x. [1])] (1 / 100))
        \<lparr>hessian_approximation := Some [[1]], f_grad_k := Some [2],
          jacobian_k := Some [[1]], x_used_for_gradient_computation := Some [1]\<rparr>)
     [1] [1] [0] [1] [1] [0]
   = ((Sqp_init (\<lambda>x. (x ! 0) ^ 2) (Some (\<lambda>x. [2 * x ! 0])) [\<lambda>x. x ! 0]
         [Some (\<lambda>x. [1])] (1 / 100))
        \<lparr>hessian_approximation := Some [[1]], f_grad_k := Some [2],
          jacobian_k := Some [[1]], x_used_for_gradient_computation := Some [1]\<rparr>,
      Inl LineSearchFailure)"
proof -
  define s where "s = (Sqp_init (\<lambda>x. (x ! 0) ^ 2) (Some (\<lambda>x. [2 * x ! 0])) [\<lambda>x. x ! 0]
         [Some (\<lambda>x. [1])] (1 / 100))
        \<lparr>hessian_approximation := Some [[1]], f_grad_k := Some [2],
          jacobian_k := Some [[1]], x_used_for_gradient_computation := Some [1]\<rparr>"
  have cg: "compute_gradients s [1] = (s, Inr ())"
    by (rule compute_gradients_cached) (simp add: s_def)
  have fields: "f_grad_k s = Some [2]" "hessian_approximation s = Some [[1]]"
    "cs s = [\<lambda>x. x ! 0]" "rho s = [0]" "f s = (\<lambda>x. (x ! 0) ^ 2)"
    by (simp_all add: s_def Sqp_init_def)
  have upd1: "update_rho s [1] [1] [0] [- 3] [0] = (s, Inr ())"
    by (simp add: update_rho_def cg fields evaluate_constraints_def vec_sub_def dot_def
        mat_vec_def)
  have upd2: "update_rho s [1] [1] [0] [1] [0] = (s, Inr ())"
    by (simp add: update_rho_def cg fields evaluate_constraints_def vec_sub_def dot_def
        mat_vec_def)
  have len_rho: "length (cs s) \<le> length (rho s)" by (simp add: fields)
  have len_s: "length (cs s) \<le> length [1 :: real]" by (simp add: fields)
  have mv: "merit_value s [a] [b] [c] = a ^ 2 - c * (a - b)" for a b c
    by (simp add: merit_value_def fields evaluate_constraints_def vec_sub_def dot_def)
  have cc: "convex_combination t [a] [b] = [(1 - t) * a + t * b]" for t a b
    by (simp add: convex_combination_def vec_add_def scal_def)
  have two: "i < 2 \<longleftrightarrow> i = 0 \<or> i = Suc 0" for i :: nat by auto
  have hit: "merit_value s (convex_combination (1 / 2 ^ 2) [1] [- 3])
               (convex_combination (1 / 2 ^ 2) [1] [1])
               (convex_combination (1 / 2 ^ 2) [0] [0]) < merit_value s [1] [1] [0]
            \<and> (\<forall>i<2. \<not> merit_value s (convex_combination (1 / 2 ^ i) [1] [- 3])
                   (convex_combination (1 / 2 ^ i) [1] [1])
                   (convex_combination (1 / 2 ^ i) [0] [0]) < merit_value s [1] [1] [0])"
    by (simp add: mv cc two)
  have "(2 :: nat) < 30" by simp
  with hit line_search_backtracking [OF upd1 len_rho len_s len_s]
  have "line_search s [1] [1] [0] [- 3] [1] [0]
      = (s, Inr (convex_combination (1 / 2 ^ 2) [1] [- 3],
                 convex_combination (1 / 2 ^ 2) [1] [1],
                 convex_combination (1 / 2 ^ 2) [0] [0], 1 / 2 ^ 2))"
    by blast
  then have first: "line_search s [1] [1] [0] [- 3] [1] [0] = (s, Inr ([0], [1], [0], 1 / 4))"
    by (simp add: cc)
  have "\<forall>j<30. \<not> merit_value s (convex_combination (1 / 2 ^ j) [1] [1])
                   (convex_combination (1 / 2 ^ j) [1] [1])
                   (convex_combination (1 / 2 ^ j) [0] [0]) < merit_value s [1] [1] [0]"
    by (simp add: mv cc)
  with line_search_backtracking [OF upd2 len_rho len_s len_s]
  have second: "line_search s [1] [1] [0] [1] [1] [0] = (s, Inl LineSearchFailure)"
    by blast
  from first second show ?thesis unfolding s_def by simp
qed

section \<open>Gradient cache: properties\<close>

lemma fold_update_upt:
  "m \<le> length ys \<Longrightarrow>
     fold (\<lambda>i zs. zs[i := F i]) [0..<m] ys = map F [0..<m] @ drop m ys"
proof (induction m)
  case 0
  then show ?case by simp
next
  case (Suc m)
  then have ih: "fold (\<lambda>i zs. zs[i := F i]) [0..<m] ys = map F [0..<m] @ drop m ys"
    by simp
  from Suc.prems have "m < length ys" by simp
  then have "drop m ys = ys ! m # drop (Suc m) ys"
    by (simp add: Cons_nth_drop_Suc)
  then have "(map F [0..<m] @ drop m ys)[m := F m] = map F [0..<m] @ F m # drop (Suc m) ys"
    by (simp add: list_update_append)
  with ih show ?case by simp
qed

lemma fold_update_all:
  "length ys = n \<Longrightarrow> fold (\<lambda>i zs. zs[i := F i]) [0..<n] ys = map F [0..<n]"
  using fold_update_upt [of n ys F] by simp

lemma finite_difference_loop_fold:
  "h \<noteq> 0 \<Longrightarrow>
     finite_difference_loop h g x idx x grad
       = Inr (fold (\<lambda>i zs. zs[i := central_difference h g x i]) idx grad)"
  by (induction idx arbitrary: grad) (simp_all add: Let_def central_difference_def)

lemma finite_difference_grad_value:
  "tol s \<noteq> 0 \<Longrightarrow>
     finite_difference_grad s g x
       = Inr (map (central_difference (tol s) g x) [0..<length x])"
  by (simp add: finite_difference_grad_def Let_def finite_difference_loop_fold
      fold_update_all zeros_def)

lemma constraint_gradient_value:
  assumes "tol s \<noteq> 0" and "c_grads s = [] \<or> i < length (c_grads s)"
  shows "constraint_gradient s i x = Inr (constraint_row s x i)"
  using assms
  by (auto simp: constraint_gradient_def constraint_row_def finite_difference_grad_value
      split: option.splits)

lemma length_constraint_row:
  assumes "\<forall>g. c_grads s \<noteq> [] \<and> c_grads s ! i = Some g \<longrightarrow> length (g x) = length x"
  shows "length (constraint_row s x i) = length x"
  using assms by (auto simp: constraint_row_def split: option.splits)

lemma constraint_row_jacobian:
  "constraint_row (s\<lparr>jacobian_k := Jn\<rparr>) x i = constraint_row s x i"
  by (simp add: constraint_row_def split: option.splits)

lemma jacobian_loop_fold:
  assumes tol: "tol s \<noteq> 0"
  shows "jacobian_k s = Some J \<Longrightarrow>
     \<forall>i\<in>set idx. i < length J \<and> length (J ! i) = length x
        \<and> (c_grads s = [] \<or> i < length (c_grads s))
        \<and> length (constraint_row s x i) = length x \<Longrightarrow>
     \<forall>row\<in>set J. length row = length x \<Longrightarrow>
     jacobian_loop s x idx
       = (s\<lparr>jacobian_k := Some (fold (\<lambda>i zs. zs[i := constraint_row s x i]) idx J)\<rparr>, Inr ())"
  using tol
proof (induction idx arbitrary: s J)
  case Nil
  then show ?case by simp
next
  case (Cons i idx)
  let ?row = "constraint_row s x i"
  let ?s1 = "s\<lparr>jacobian_k := Some (J[i := ?row])\<rparr>"
  from Cons.prems have i: "i < length J" "length (J ! i) = length x"
    "c_grads s = [] \<or> i < length (c_grads s)" "length ?row = length x"
    by simp_all
  have cg: "constraint_gradient s i x = Inr ?row"
    using Cons.prems(4) i(3) by (rule constraint_gradient_value)
  have same_row: "constraint_row ?s1 x = constraint_row s x"
    by (simp add: constraint_row_jacobian fun_eq_iff)
  have step: "jacobian_loop s x (i # idx) = jacobian_loop ?s1 x idx"
    using cg Cons.prems(1) i by (simp add: Let_def)
  have rows: "\<forall>row\<in>set (J[i := ?row]). length row = length x"
    using Cons.prems(3) i(4) by (auto dest: set_update_subset_insert [THEN subsetD])
  have pre: "\<forall>j\<in>set idx. j < length (J[i := ?row]) \<and> length (J[i := ?row] ! j) = length x
        \<and> (c_grads ?s1 = [] \<or> j < length (c_grads ?s1))
        \<and> length (constraint_row ?s1 x j) = length x"
  proof
    fix j assume j: "j \<in> set idx"
    with Cons.prems(2) have "j < length J" "c_grads s = [] \<or> j < length (c_grads s)"
      "length (constraint_row s x j) = length x" by simp_all
    moreover from this(1) rows have "length (J[i := ?row] ! j) = length x"
      by (metis length_list_update nth_mem)
    ultimately show "j < length (J[i := ?row]) \<and> length (J[i := ?row] ! j) = length x
        \<and> (c_grads ?s1 = [] \<or> j < length (c_grads ?s1))
        \<and> length (constraint_row ?s1 x j) = length x"
      by (simp add: same_row)
  qed
  have "jacobian_loop ?s1 x idx
      = (?s1\<lparr>jacobian_k := Some (fold (\<lambda>i zs. zs[i := constraint_row ?s1 x i]) idx
                (J[i := ?row]))\<rparr>, Inr ())"
    using Cons.prems(4) by (intro Cons.IH [OF _ pre rows]) simp_all
  with step show ?case by (simp add: same_row)
qed

lemma constraint_row_f_grad_k:
  "constraint_row (s\<lparr>f_grad_k := gk\<rparr>) x i = constraint_row s x i"
  by (simp add: constraint_row_def split: option.splits)

lemma compute_gradients_miss:
  assumes other: "x_used_for_gradient_computation s \<noteq> Some x" and tol: "tol s \<noteq> 0"
    and cover: "c_grads s = [] \<or> length (cs s) \<le> length (c_grads s)"
    and lens: "\<forall>i<length (cs s). \<forall>g. c_grads s \<noteq> [] \<and> c_grads s ! i = Some g
               \<longrightarrow> length (g x) = length x"
  shows "compute_gradients s x =
            (s\<lparr>f_grad_k := Some (case f_grad s of
                                   Some g \<Rightarrow> g x
                                 | None \<Rightarrow> map (central_difference (tol s) (f s) x)
                                              [0..<length x]),
                jacobian_k := Some (map (constraint_row s x) [0..<length (cs s)]),
                x_used_for_gradient_computation := Some x\<rparr>, Inr ())"
proof -
  define gk where "gk = (case f_grad s of
                                 Some g \<Rightarrow> g x
                               | None \<Rightarrow> map (central_difference (tol s) (f s) x)
                                            [0..<length x])"
  define J0 where "J0 = zero_mat (length (cs s)) (length x)"
  define s2 where "s2 = s\<lparr>f_grad_k := Some gk, jacobian_k := Some J0\<rparr>"
  have grad: "(case f_grad s of Some g \<Rightarrow> Inr (g x)
               | None \<Rightarrow> finite_difference_grad s (f s) x) = Inr gk"
    using tol by (simp add: gk_def finite_difference_grad_value split: option.splits)
  have J0_len: "length J0 = length (cs s)" by (simp add: J0_def zero_mat_def)
  have J0_rows: "\<forall>row\<in>set J0. length row = length x"
    by (simp add: J0_def zero_mat_def zeros_def)
  have rows: "constraint_row s2 x = constraint_row s x"
    by (simp add: s2_def fun_eq_iff constraint_row_jacobian constraint_row_f_grad_k)
  have pre: "\<forall>i\<in>set [0..<length (cs s)]. i < length J0 \<and> length (J0 ! i) = length x
      \<and> (c_grads s2 = [] \<or> i < length (c_grads s2))
      \<and> length (constraint_row s2 x i) = length x"
  proof
    fix i assume "i \<in> set [0..<length (cs s)]"
    then have i: "i < length (cs s)" by simp
    with lens have "length (constraint_row s x i) = length x"
      by (intro length_constraint_row) simp
    moreover from i cover have "c_grads s = [] \<or> i < length (c_grads s)" by auto
    moreover from i J0_len J0_rows have "length (J0 ! i) = length x" by simp
    ultimately show "i < length J0 \<and> length (J0 ! i) = length x
      \<and> (c_grads s2 = [] \<or> i < length (c_grads s2))
      \<and> length (constraint_row s2 x i) = length x"
      using i J0_len by (simp add: rows) (simp add: s2_def)
  qed
  have "tol s2 \<noteq> 0" "jacobian_k s2 = Some J0" using tol by (simp_all add: s2_def)
  then have "jacobian_loop s2 x [0..<length (cs s)]
      = (s2\<lparr>jacobian_k := Some (fold (\<lambda>i zs. zs[i := constraint_row s2 x i])
                [0..<length (cs s)] J0)\<rparr>, Inr ())"
    using pre J0_rows by (intro jacobian_loop_fold)
  then have loop: "jacobian_loop s2 x [0..<length (cs s)]
      = (s2\<lparr>jacobian_k := Some (map (constraint_row s x) [0..<length (cs s)])\<rparr>, Inr ())"
    by (simp add: rows fold_update_all [OF J0_len])
  show ?thesis
    using other grad loop
    by (simp add: compute_gradients_def Let_def s2_def [symmetric] J0_def [symmetric]
          gk_def [symmetric])
       (simp add: s2_def)
qed

text \<open>
  C7. \<^verbatim>\<open>_compute_gradients(x)\<close> returns the solver unchanged when \<open>x\<close> is the cached
  point. Otherwise, for a nonzero \<open>tol\<close>, a list of constraint gradients that is empty or
  covers every constraint, and analytic constraint gradients of the length of \<open>x\<close>, it
  stores the objective gradient (the analytic one when supplied, the central finite
  difference with step \<open>tol\<close> otherwise), the Jacobian whose row \<open>i\<close> is the gradient of
  constraint \<open>i\<close> obtained in the same way, and \<open>x\<close> as the cached point. Function
  evaluations are not counted in the model: the first part states that no attribute
  changes.
\<close>

theorem compute_gradients_cache:
  "(x_used_for_gradient_computation s = Some x \<longrightarrow> compute_gradients s x = (s, Inr ()))
   \<and> (x_used_for_gradient_computation s \<noteq> Some x \<and> tol s \<noteq> 0
        \<and> (c_grads s = [] \<or> length (cs s) \<le> length (c_grads s))
        \<and> (\<forall>i<length (cs s). \<forall>g. c_grads s \<noteq> [] \<and> c_grads s ! i = Some g
               \<longrightarrow> length (g x) = length x)
      \<longrightarrow> compute_gradients s x =
            (s\<lparr>f_grad_k := Some (case f_grad s of
                                   Some g \<Rightarrow> g x
                                 | None \<Rightarrow> map (central_difference (tol s) (f s) x)
                                              [0..<length x]),
                jacobian_k := Some (map (constraint_row s x) [0..<length (cs s)]),
                x_used_for_gradient_computation := Some x\<rparr>, Inr ()))"
proof -
  have hit: "compute_gradients s x = (s, Inr ())"
    if "x_used_for_gradient_computation s = Some x"
    using that by (simp add: compute_gradients_def)
  have miss: "compute_gradients s x =
            (s\<lparr>f_grad_k := Some (case f_grad s of
                                   Some g \<Rightarrow> g x
                                 | None \<Rightarrow> map (central_difference (tol s) (f s) x)
                                              [0..<length x]),
                jacobian_k := Some (map (constraint_row s x) [0..<length (cs s)]),
                x_used_for_gradient_computation := Some x\<rparr>, Inr ())"
    if "x_used_for_gradient_computation s \<noteq> Some x" and "tol s \<noteq> 0"
      and "c_grads s = [] \<or> length (cs s) \<le> length (c_grads s)"
      and "\<forall>i<length (cs s). \<forall>g. c_grads s \<noteq> [] \<and> c_grads s ! i = Some g
               \<longrightarrow> length (g x) = length x"
    using that by (rule compute_gradients_miss)
  from hit miss show ?thesis by blast
qed

theorem compute_gradients_cache_witness:
  "compute_gradients (Sqp_init (\<lambda>x. (x ! 0) ^ 2) None [\<lambda>x. x ! 0] [] (1 / 2)) [3]
     = ((Sqp_init (\<lambda>x. (x ! 0) ^ 2) None [\<lambda>x. x ! 0] [] (1 / 2))
          \<lparr>f_grad_k := Some [6], jacobian_k := Some [[1]],
            x_used_for_gradient_computation := Some [3]\<rparr>, Inr ())
   \<and> compute_gradients
       ((Sqp_init (\<lambda>x. (x ! 0) ^ 2) None [\<lambda>x. x ! 0] [] (1 / 2))
          \<lparr>f_grad_k := Some [6], jacobian_k := Some [[1]],
            x_used_for_gradient_computation := Some [3]\<rparr>) [3]
     = ((Sqp_init (\<lambda>x. (x ! 0) ^ 2) None [\<lambda>x. x ! 0] [] (1 / 2))
          \<lparr>f_grad_k := Some [6], jacobian_k := Some [[1]],
            x_used_for_gradient_computation := Some [3]\<rparr>, Inr ())"
proof -
  define s where "s = Sqp_init (\<lambda>x. (x ! 0) ^ 2) None [\<lambda>x. x ! 0] [] (1 / 2)"
  define s' where "s' = s\<lparr>f_grad_k := Some [6], jacobian_k := Some [[1]],
            x_used_for_gradient_computation := Some [3]\<rparr>"
  have fields: "x_used_for_gradient_computation s = None" "tol s = 1 / 2" "c_grads s = []"
    "cs s = [\<lambda>x. x ! 0]" "f_grad s = None" "f s = (\<lambda>x. (x ! 0) ^ 2)"
    by (simp_all add: s_def Sqp_init_def)
  have pre: "x_used_for_gradient_computation s \<noteq> Some [3] \<and> tol s \<noteq> 0
        \<and> (c_grads s = [] \<or> length (cs s) \<le> length (c_grads s))
        \<and> (\<forall>i<length (cs s). \<forall>g. c_grads s \<noteq> [] \<and> c_grads s ! i = Some g
               \<longrightarrow> length (g [3]) = length [3 :: real])"
    by (simp add: fields)
  have "compute_gradients s [3] =
            (s\<lparr>f_grad_k := Some (case f_grad s of
                                   Some g \<Rightarrow> g [3]
                                 | None \<Rightarrow> map (central_difference (tol s) (f s) [3])
                                              [0..<length [3 :: real]]),
                jacobian_k := Some (map (constraint_row s [3]) [0..<length (cs s)]),
                x_used_for_gradient_computation := Some [3]\<rparr>, Inr ())"
    using compute_gradients_cache [of s "[3]"] pre by blast
  moreover have "(7 / 2 :: real) ^ 2 - (5 / 2) ^ 2 = 6" by (simp add: power2_eq_square)
  ultimately have miss: "compute_gradients s [3] = (s', Inr ())"
    by (simp add: fields constraint_row_def central_difference_def s'_def)
  have "x_used_for_gradient_computation s' = Some [3]" by (simp add: s'_def)
  with compute_gradients_cache [of s' "[3]"] have hit: "compute_gradients s' [3] = (s', Inr ())"
    by blast
  from miss hit show ?thesis unfolding s'_def s_def by simp
qed

section \<open>The constraint list through an iteration\<close>

lemma solve_qp_cs: "solve_qp qp s x_k = (s', r) \<Longrightarrow> cs s' = cs s"
proof -
  assume a: "solve_qp qp s x_k = (s', r)"
  obtain s1 r1 where cg: "compute_gradients s x_k = (s1, r1)"
    by (cases "compute_gradients s x_k")
  then have "cs s1 = cs s" by (rule compute_gradients_fields)
  with a cg show ?thesis
    by (auto simp: solve_qp_def Let_def split: option.splits sum.splits prod.splits if_splits)
qed

lemma update_rho_cs: "update_rho s x_k s_k pi_k x_hat pi_hat = (s', r) \<Longrightarrow> cs s' = cs s"
proof -
  assume a: "update_rho s x_k s_k pi_k x_hat pi_hat = (s', r)"
  obtain s1 r1 where cg: "compute_gradients s x_k = (s1, r1)"
    by (cases "compute_gradients s x_k")
  then have "cs s1 = cs s" by (rule compute_gradients_fields)
  with a cg show ?thesis
    by (auto simp: update_rho_def Let_def split: option.splits sum.splits if_splits)
qed

lemma line_search_cs:
  "line_search s x_k s_k pi_k x_hat s_hat pi_hat = (s', r) \<Longrightarrow> cs s' = cs s"
proof -
  assume a: "line_search s x_k s_k pi_k x_hat s_hat pi_hat = (s', r)"
  obtain s1 r1 where ur: "update_rho s x_k s_k pi_k x_hat pi_hat = (s1, r1)"
    by (cases "update_rho s x_k s_k pi_k x_hat pi_hat")
  then have "cs s1 = cs s" by (rule update_rho_cs)
  with a ur show ?thesis
    by (auto simp: line_search_def Let_def split: sum.splits)
qed

lemma curvature_pair_cs:
  "curvature_pair s x0 x1 x_hat pi1 alpha = (s', r) \<Longrightarrow> cs s' = cs s"
proof -
  assume a: "curvature_pair s x0 x1 x_hat pi1 alpha = (s', r)"
  obtain s1 r1 where cg: "compute_gradients s x1 = (s1, r1)"
    by (cases "compute_gradients s x1")
  then have "cs s1 = cs s" by (rule compute_gradients_fields)
  with a cg show ?thesis
    by (auto simp: curvature_pair_def Let_def
        split: option.splits sum.splits if_splits bool.splits)
qed

lemma update_hessian_approximation_cs:
  "update_hessian_approximation s x0 x1 x_hat pi1 alpha = (s', r) \<Longrightarrow> cs s' = cs s"
proof -
  assume a: "update_hessian_approximation s x0 x1 x_hat pi1 alpha = (s', r)"
  obtain s1 r1 where cp: "curvature_pair s x0 x1 x_hat pi1 alpha = (s1, r1)"
    by (cases "curvature_pair s x0 x1 x_hat pi1 alpha")
  then have "cs s1 = cs s" by (rule curvature_pair_cs)
  with a cp show ?thesis
    by (auto simp: update_hessian_approximation_def Let_def
        split: option.splits sum.splits if_splits prod.splits)
qed

lemma sqp_print_no_constraints: "cs s = [] \<Longrightarrow> sqp_print s x = Inl EmptySequence"
  by (simp add: sqp_print_def evaluate_constraints_def)

lemma solve_loop_no_constraints:
  assumes "cs s = []"
  shows "\<exists>s' e. solve_loop qp (Suc k) s x_k s_k pi_k = (s', Inl e)"
proof -
  obtain s1 r1 where cg: "compute_gradients s x_k = (s1, r1)"
    by (cases "compute_gradients s x_k")
  then have c1: "cs s1 = []" using assms compute_gradients_fields(3) by metis
  show ?thesis
  proof (cases r1)
    case (Inl e)
    with cg show ?thesis by simp
  next
    case r1: (Inr u)
    obtain s2 r2 where qp: "solve_qp qp s1 x_k = (s2, r2)"
      by (cases "solve_qp qp s1 x_k")
    then have c2: "cs s2 = []" using c1 solve_qp_cs by metis
    show ?thesis
    proof (cases r2)
      case (Inl e)
      with cg r1 qp show ?thesis by simp
    next
      case (Inr step)
      obtain x_hat s_hat pi_hat it where step: "step = (x_hat, s_hat, pi_hat, it)"
        by (cases step)
      obtain s3 r3 where ls: "line_search s2 x_k s_k pi_k x_hat s_hat pi_hat = (s3, r3)"
        by (cases "line_search s2 x_k s_k pi_k x_hat s_hat pi_hat")
      then have c3: "cs s3 = []" using c2 line_search_cs by metis
      show ?thesis
      proof (cases r3)
        case (Inl e)
        with cg r1 qp Inr step ls show ?thesis by simp
      next
        case r3: (Inr pt)
        obtain x' s'' pi' alpha where pt: "pt = (x', s'', pi', alpha)"
          by (cases pt)
        obtain s4 r4 where uh: "update_hessian_approximation s3 x_k x' x_hat pi' alpha = (s4, r4)"
          by (cases "update_hessian_approximation s3 x_k x' x_hat pi' alpha")
        then have c4: "cs s4 = []" using c3 update_hessian_approximation_cs by metis
        show ?thesis
        proof (cases r4)
          case (Inl e)
          with cg r1 qp Inr step ls r3 pt uh show ?thesis by simp
        next
          case r4: (Inr u4)
          have "sqp_print s4 x' = Inl EmptySequence"
            using c4 by (rule sqp_print_no_constraints)
          with cg r1 qp Inr step ls r3 pt uh r4 show ?thesis by simp
        qed
      qed
    qed
  qed
qed

lemma solve_no_constraints:
  assumes "cs s = []"
  shows "\<exists>e. snd (solve qp s x0 (Suc k)) = Inl e"
proof -
  let ?s0 = "s\<lparr>hessian_approximation := Some (identity (length x0))\<rparr>"
  have "cs ?s0 = []" using assms by simp
  then obtain s' e where "solve_loop qp (Suc k) ?s0 x0 (zeros (length (cs s)))
      (zeros (length (cs s))) = (s', Inl e)"
    using solve_loop_no_constraints by blast
  then have "snd (solve qp s x0 (Suc k)) = Inl e"
    by (simp add: solve_def Let_def del: solve_loop.simps)
  then show ?thesis by blast
qed

text \<open>
  C3. The convergence test at two points where the four checks of the specification
  pass. With the constraint \<open>x\<^sub>1 + 3 \<ge> 0\<close>, a constant objective and \<open>tol = 1/100\<close>, the
  point \<open>x = (-3)\<close> with \<open>pi = (0)\<close> is rejected: the tolerance \<open>tol (1 + max x)\<close> of
  the code is negative there. With no constraint, \<open>x = (1)\<close> and the empty \<open>pi\<close>, the
  test raises instead of answering.
\<close>

theorem check_convergence_rejects_kkt_points:
  "kkt_within_tolerance
     (Sqp_init (\<lambda>x. 0) (Some (\<lambda>x. [0])) [\<lambda>x. x ! 0 + 3] [Some (\<lambda>x. [1])] (1 / 100))
     [- 3] [0]
   \<and> snd (check_convergence
       (Sqp_init (\<lambda>x. 0) (Some (\<lambda>x. [0])) [\<lambda>x. x ! 0 + 3] [Some (\<lambda>x. [1])] (1 / 100))
       [- 3] [0]) = Inr False
   \<and> kkt_within_tolerance (Sqp_init (\<lambda>x. 0) (Some (\<lambda>x. [0])) [] [] (1 / 100)) [1] []
   \<and> snd (check_convergence (Sqp_init (\<lambda>x. 0) (Some (\<lambda>x. [0])) [] [] (1 / 100)) [1] [])
       = Inl EmptySequence"
proof -
  have a: "kkt_within_tolerance
     (Sqp_init (\<lambda>x. 0) (Some (\<lambda>x. [0])) [\<lambda>x. x ! 0 + 3] [Some (\<lambda>x. [1])] (1 / 100))
     [- 3] [0]"
    by (simp add: kkt_within_tolerance_def Sqp_init_def max_abs_def constraint_row_def
        tmat_vec_def vec_sub_def dot_def)
  have b: "snd (check_convergence
       (Sqp_init (\<lambda>x. 0) (Some (\<lambda>x. [0])) [\<lambda>x. x ! 0 + 3] [Some (\<lambda>x. [1])] (1 / 100))
       [- 3] [0]) = Inr False"
    by (simp add: check_convergence_def Sqp_init_def)
  have c: "kkt_within_tolerance (Sqp_init (\<lambda>x. 0) (Some (\<lambda>x. [0])) [] [] (1 / 100)) [1] []"
    by (simp add: kkt_within_tolerance_def Sqp_init_def max_abs_def
        tmat_vec_def vec_sub_def dot_def)
  have d: "snd (check_convergence (Sqp_init (\<lambda>x. 0) (Some (\<lambda>x. [0])) [] [] (1 / 100)) [1] [])
       = Inl EmptySequence"
    by (simp add: check_convergence_def)
  from a b c d show ?thesis by blast
qed

text \<open>
  C9. The objective \<open>f(x) = x\<^sub>1\<^sup>2\<close> (that is \<open>x'Qx / 2\<close> with \<open>Q = (2)\<close>) with its analytic
  gradient, no constraint, the default tolerance and the start \<open>x0 = (1)\<close>: whatever the
  subsolver returns, \<^verbatim>\<open>solve\<close> ends with an exception. With the exact subsolver of the
  one-dimensional subproblem, the first iteration takes the step to the minimiser and
  updates the Hessian approximation, and the progress report then raises on the maximum
  of the empty vector of constraint values.
\<close>

theorem solve_without_constraints_fails:
  "(\<forall>qp. \<exists>e. snd (solve qp
        (Sqp_init (\<lambda>x. (x ! 0) ^ 2) (Some (\<lambda>x. [2 * x ! 0])) [] [] (1 / 10 ^ 20))
        [1] 100) = Inl e)
   \<and> solve (\<lambda>Q c A_eq b_eq A_ineq b_ineq t n. ([- (c ! 0) / (Q ! 0 ! 0)], [], [], 0, 0, 0, 1))
        (Sqp_init (\<lambda>x. (x ! 0) ^ 2) (Some (\<lambda>x. [2 * x ! 0])) [] [] (1 / 10 ^ 20))
        [1] 100
     = ((Sqp_init (\<lambda>x. (x ! 0) ^ 2) (Some (\<lambda>x. [2 * x ! 0])) [] [] (1 / 10 ^ 20))
          \<lparr>x_used_for_gradient_computation := Some [0],
            f_grad_k := Some [0], jacobian_k := Some [],
            hessian_approximation := Some [[4]]\<rparr>,
        Inl EmptySequence)"
proof -
  define s where "s = Sqp_init (\<lambda>x. (x ! 0) ^ 2) (Some (\<lambda>x. [2 * x ! 0])) [] []
      (1 / 10 ^ 20)"
  define qp :: qp_solver where
    "qp = (\<lambda>Q c A_eq b_eq A_ineq b_ineq t n. ([- (c ! 0) / (Q ! 0 ! 0)], [], [], 0, 0, 0, 1))"
  have hundred: "(100 :: nat) = Suc 99" by simp
  have "cs s = []" by (simp add: s_def Sqp_init_def)
  then have general: "\<exists>e. snd (solve qp' s [1] 100) = Inl e" for qp'
    unfolding hundred by (rule solve_no_constraints)
  define s0 where "s0 = s\<lparr>hessian_approximation := Some [[1]]\<rparr>"
  define s1 where "s1 = s0\<lparr>f_grad_k := Some [2], jacobian_k := Some [],
      x_used_for_gradient_computation := Some [1]\<rparr>"
  define s2 where "s2 = s1\<lparr>f_grad_k := Some [0], jacobian_k := Some [],
      x_used_for_gradient_computation := Some [0]\<rparr>"
  define s3 where "s3 = s2\<lparr>hessian_approximation := Some [[4]]\<rparr>"
  have fields: "f_grad s = Some (\<lambda>x. [2 * x ! 0])" "cs s = []" "c_grads s = []"
    "f s = (\<lambda>x. (x ! 0) ^ 2)" "rho s = []" "minor_tol s = 1 / 10 ^ 20 / 100"
    "eta s = 1 / 2"
    "x_used_for_gradient_computation s = None"
    by (simp_all add: s_def Sqp_init_def)
  have cg1: "compute_gradients s0 [1] = (s1, Inr ())"
    by (simp add: compute_gradients_def s0_def s1_def fields zero_mat_def)
  have f1: "f_grad_k s1 = Some [2]" "jacobian_k s1 = Some []"
    "hessian_approximation s1 = Some [[1]]" "cs s1 = []" "rho s1 = []"
    "f s1 = (\<lambda>x. (x ! 0) ^ 2)" "minor_tol s1 = 1 / 10 ^ 20 / 100" "eta s1 = 1 / 2"
    "x_used_for_gradient_computation s1 = Some [1]"
    by (simp_all add: s1_def s0_def fields)
  have f2: "f_grad_k s2 = Some [0]" "jacobian_k s2 = Some []"
    "hessian_approximation s2 = Some [[1]]" "cs s2 = []" "eta s2 = 1 / 2"
    by (simp_all add: s2_def s1_def s0_def fields)
  have cg1': "compute_gradients s1 [1] = (s1, Inr ())"
    by (rule compute_gradients_cached) (simp add: f1)
  have qp1: "solve_qp qp s1 [1] = (s1, Inr ([- 1], [], [], 1))"
    by (simp add: solve_qp_def cg1' Let_def f1 qp_def vec_sub_def mat_vec_def dot_def
          evaluate_constraints_def)
  have ur: "update_rho s1 [1] [] [] [- 1] [] = (s1, Inr ())"
    by (simp add: update_rho_def cg1' Let_def f1 vec_sub_def mat_vec_def dot_def
          evaluate_constraints_def)
  have mf: "merit_function s1 [a] [] [] = Inr (a ^ 2)" for a
    by (simp add: merit_function_def evaluate_constraints_def f1 vec_sub_def dot_def)
  have thirty: "(30 :: nat) = Suc (Suc 28)" by simp
  have "line_search_loop s1 (Suc (Suc 28)) 1 1 [1] [] [] [- 1] [] [] = Inr ([0], [], [], 1 / 2)"
    by (simp add: mf vec_add_def scal_def Let_def del: Suc_numeral)
  then have lsl: "line_search_loop s1 30 1 1 [1] [] [] [- 1] [] [] = Inr ([0], [], [], 1 / 2)"
    by (simp only: thirty)
  have ls: "line_search s1 [1] [] [] [- 1] [] [] = (s1, Inr ([0], [], [], 1 / 2))"
    by (simp add: line_search_def ur mf lsl del: line_search_loop.simps)
  have cg2: "compute_gradients s1 [0] = (s2, Inr ())"
    by (simp add: compute_gradients_def s0_def s1_def s2_def fields zero_mat_def)
  have cp: "curvature_pair s1 [1] [0] [- 1] [] (1 / 2) = (s2, Inr (Some ([- 1], [- 2], 2)))"
    by (simp add: curvature_pair_def cg2 Let_def f1 f2 vec_sub_def mat_vec_def dot_def
          mat_sub_def tmat_vec_def)
  have uh: "update_hessian_approximation s1 [1] [0] [- 1] [] (1 / 2) = (s3, Inr ())"
    by (simp add: update_hessian_approximation_def cp Let_def f2 s3_def mat_vec_def dot_def
          mat_add_def vec_add_def mat_sdiv_def outer_def)
  have pr: "sqp_print s3 [0] = Inl EmptySequence"
    by (rule sqp_print_no_constraints) (simp add: s3_def s2_def s1_def s0_def fields)
  have loop: "solve_loop qp (Suc 99) s0 [1] [] [] = (s3, Inl EmptySequence)"
    by (simp add: cg1 qp1 ls uh pr del: Suc_numeral)
  have "identity (length [1 :: real]) = [[1]]" by (simp add: identity_def zeros_def)
  then have "solve qp s [1] 100 = (s3, Inl EmptySequence)"
    using loop unfolding hundred
    by (simp add: solve_def Let_def fields zeros_def s0_def del: solve_loop.simps)
  moreover have "s3 = s\<lparr>x_used_for_gradient_computation := Some [0],
            f_grad_k := Some [0], jacobian_k := Some [],
            hessian_approximation := Some [[4]]\<rparr>"
    by (simp add: s3_def s2_def s1_def s0_def)
  ultimately have concrete: "solve qp s [1] 100
      = (s\<lparr>x_used_for_gradient_computation := Some [0],
            f_grad_k := Some [0], jacobian_k := Some [],
            hessian_approximation := Some [[4]]\<rparr>, Inl EmptySequence)"
    by simp
  from general concrete show ?thesis unfolding s_def qp_def by blast
qed

section \<open>Hessian update: properties\<close>

lemma dot_commute: "dot u v = dot v u"
proof (induction u arbitrary: v)
  case Nil
  then show ?case by (simp add: dot_def)
next
  case (Cons a u)
  then show ?case by (cases v) (simp_all add: dot_def mult.commute)
qed

lemma dot_add_left:
  "length u = length v \<Longrightarrow> dot (vec_add u v) x = dot u x + dot v x"
proof (induction u v arbitrary: x rule: list_induct2)
  case Nil
  then show ?case by (simp add: dot_def vec_add_def)
next
  case (Cons a u b v)
  show ?case
  proof (cases x)
    case Nil
    then show ?thesis by (simp add: dot_def vec_add_def)
  next
    case (Cons c x')
    have "dot (vec_add u v) x' = dot u x' + dot v x'" by (rule Cons.IH)
    then show ?thesis using Cons by (simp add: dot_def vec_add_def algebra_simps)
  qed
qed

lemma dot_scal_left: "dot (map ((*) k) u) x = k * dot u x"
proof (induction u arbitrary: x)
  case Nil
  then show ?case by (simp add: dot_def)
next
  case (Cons a u)
  show ?case
  proof (cases x)
    case Nil
    then show ?thesis by (simp add: dot_def)
  next
    case (Cons c x')
    have ih: "dot (map ((*) k) u) x' = k * dot u x'" by (rule Cons.IH)
    have "dot (map ((*) k) (a # u)) (c # x') = k * a * c + dot (map ((*) k) u) x'"
      by (simp add: dot_def)
    also have "\<dots> = k * (a * c + dot u x')"
      unfolding ih by (simp only: distrib_left mult.assoc)
    also have "a * c + dot u x' = dot (a # u) (c # x')"
      by (simp add: dot_def)
    finally show ?thesis using Cons by simp
  qed
qed

lemma dot_zeros_right: "dot u (zeros n) = 0"
proof (induction u arbitrary: n)
  case Nil
  then show ?case by (simp add: dot_def)
next
  case (Cons a u)
  then show ?case by (cases n) (simp_all add: dot_def zeros_def)
qed

lemma square_mat_rows: "square_mat A \<Longrightarrow> i < length A \<Longrightarrow> length (A ! i) = length A"
  by (simp add: square_mat_def list_all_length)

lemma square_outer: "square_mat (outer u u)"
  by (simp add: square_mat_def outer_def list_all_iff)

lemma length_outer: "length (outer u v) = length u"
  by (simp add: outer_def)

lemma square_mat_sdiv: "square_mat A \<Longrightarrow> square_mat (mat_sdiv A k)"
  by (simp add: square_mat_def mat_sdiv_def list_all_iff)

lemma length_mat_sdiv: "length (mat_sdiv A k) = length A"
  by (simp add: mat_sdiv_def)

lemma length_mat_add: "length (mat_add A B) = min (length A) (length B)"
  by (simp add: mat_add_def)

lemma square_mat_add:
  assumes "square_mat A" and "square_mat B" and "length A = length B"
  shows "square_mat (mat_add A B)"
  unfolding square_mat_def list_all_length
proof (intro allI impI)
  fix i assume "i < length (mat_add A B)"
  then have i: "i < length A" "i < length B" by (simp_all add: length_mat_add)
  then have "mat_add A B ! i = vec_add (A ! i) (B ! i)" by (simp add: mat_add_def)
  moreover have "length (A ! i) = length A" "length (B ! i) = length B"
    using assms i by (simp_all add: square_mat_rows)
  ultimately show "length (mat_add A B ! i) = length (mat_add A B)"
    using assms(3) by (simp add: vec_add_def length_mat_add)
qed

lemma outer_entry: "i < length u \<Longrightarrow> j < length v \<Longrightarrow> outer u v ! i ! j = u ! i * v ! j"
  by (simp add: outer_def)

lemma mat_sdiv_entry:
  "i < length A \<Longrightarrow> j < length (A ! i) \<Longrightarrow> mat_sdiv A k ! i ! j = A ! i ! j / k"
  by (simp add: mat_sdiv_def)

lemma mat_add_entry:
  "i < length A \<Longrightarrow> i < length B \<Longrightarrow> j < length (A ! i) \<Longrightarrow> j < length (B ! i) \<Longrightarrow>
     mat_add A B ! i ! j = A ! i ! j + B ! i ! j"
  by (simp add: mat_add_def vec_add_def)

lemma symmetric_matI:
  "square_mat A \<Longrightarrow> (\<And>i j. i < length A \<Longrightarrow> j < length A \<Longrightarrow> A ! i ! j = A ! j ! i) \<Longrightarrow>
     symmetric_mat A"
  by (simp add: symmetric_mat_def list_all_iff)

lemma symmetric_matD:
  "symmetric_mat A \<Longrightarrow> i < length A \<Longrightarrow> j < length A \<Longrightarrow> A ! i ! j = A ! j ! i"
  by (simp add: symmetric_mat_def list_all_iff)

lemma symmetric_square: "symmetric_mat A \<Longrightarrow> square_mat A"
  by (simp add: symmetric_mat_def)

lemma symmetric_rank_one: "symmetric_mat (mat_sdiv (outer u u) k)"
proof (rule symmetric_matI)
  show "square_mat (mat_sdiv (outer u u) k)"
    by (intro square_mat_sdiv square_outer)
next
  fix i j
  assume "i < length (mat_sdiv (outer u u) k)" and "j < length (mat_sdiv (outer u u) k)"
  then have ij: "i < length u" "j < length u"
    by (simp_all add: length_mat_sdiv length_outer)
  then have "length (outer u u ! i) = length u" "length (outer u u ! j) = length u"
    by (simp_all add: outer_def)
  with ij show "mat_sdiv (outer u u) k ! i ! j = mat_sdiv (outer u u) k ! j ! i"
    by (simp add: mat_sdiv_entry outer_entry length_outer mult.commute)
qed

lemma symmetric_mat_add:
  assumes A: "symmetric_mat A" and B: "symmetric_mat B" and len: "length A = length B"
  shows "symmetric_mat (mat_add A B)"
proof (rule symmetric_matI)
  show "square_mat (mat_add A B)"
    using A B len by (intro square_mat_add symmetric_square)
next
  fix i j
  assume "i < length (mat_add A B)" and "j < length (mat_add A B)"
  then have ij: "i < length A" "j < length A" "i < length B" "j < length B"
    by (simp_all add: length_mat_add)
  have rows: "length (A ! i) = length A" "length (A ! j) = length A"
    "length (B ! i) = length B" "length (B ! j) = length B"
    using A B ij by (simp_all add: square_mat_rows symmetric_square)
  have "mat_add A B ! i ! j = A ! i ! j + B ! i ! j"
    using ij rows by (intro mat_add_entry) simp_all
  moreover have "mat_add A B ! j ! i = A ! j ! i + B ! j ! i"
    using ij rows by (intro mat_add_entry) simp_all
  ultimately show "mat_add A B ! i ! j = mat_add A B ! j ! i"
    using symmetric_matD [OF A ij(1,2)] symmetric_matD [OF B ij(3,4)] by simp
qed

lemma mat_vec_add:
  assumes "square_mat A" and "square_mat B" and "length A = length B"
  shows "mat_vec (mat_add A B) x = vec_add (mat_vec A x) (mat_vec B x)"
proof (rule nth_equalityI)
  show "length (mat_vec (mat_add A B) x) = length (vec_add (mat_vec A x) (mat_vec B x))"
    by (simp add: mat_vec_def vec_add_def length_mat_add)
next
  fix i assume "i < length (mat_vec (mat_add A B) x)"
  then have i: "i < length A" "i < length B"
    by (simp_all add: mat_vec_def length_mat_add)
  have rows: "length (A ! i) = length (B ! i)"
    using assms i by (simp add: square_mat_rows)
  have "mat_vec (mat_add A B) x ! i = dot (vec_add (A ! i) (B ! i)) x"
    using i by (simp add: mat_vec_def mat_add_def length_mat_add)
  also have "\<dots> = dot (A ! i) x + dot (B ! i) x"
    using rows by (rule dot_add_left)
  also have "\<dots> = vec_add (mat_vec A x) (mat_vec B x) ! i"
    using i by (simp add: mat_vec_def vec_add_def)
  finally show "mat_vec (mat_add A B) x ! i = vec_add (mat_vec A x) (mat_vec B x) ! i" .
qed

lemma mat_vec_rank_one:
  "mat_vec (mat_sdiv (outer u u) k) x = map ((*) (dot u x / k)) u"
proof -
  have row: "dot (map (\<lambda>e. e / k) (map (\<lambda>vj. a * vj) u)) x = dot u x / k * a" for a
  proof -
    have "map (\<lambda>e. e / k) (map (\<lambda>vj. a * vj) u) = map ((*) (a / k)) u" by simp
    then have "dot (map (\<lambda>e. e / k) (map (\<lambda>vj. a * vj) u)) x = a / k * dot u x"
      by (simp only: dot_scal_left)
    then show ?thesis by simp
  qed
  have "mat_vec (mat_sdiv (outer u u) k) x
      = map (\<lambda>a. dot (map (\<lambda>e. e / k) (map (\<lambda>vj. a * vj) u)) x) u"
    by (simp add: mat_vec_def mat_sdiv_def outer_def comp_def)
  also have "\<dots> = map (\<lambda>a. dot u x / k * a) u"
    by (simp only: row)
  finally show ?thesis by simp
qed

lemma quadratic_form_rank_one:
  "dot x (mat_vec (mat_sdiv (outer u u) k) x) = (dot u x) ^ 2 / k"
proof -
  have "dot x (map ((*) (dot u x / k)) u) = dot (map ((*) (dot u x / k)) u) x"
    by (rule dot_commute)
  then show ?thesis
    by (simp add: mat_vec_rank_one dot_scal_left power2_eq_square)
qed

lemma curvature_pair_product:
  assumes "curvature_pair s x0 x1 x_hat pi1 alpha = (s1, Inr (Some (delta, y, t)))"
  shows "t = dot y delta"
proof -
  obtain s' r where cg: "compute_gradients s x1 = (s', r)"
    by (cases "compute_gradients s x1")
  from assms show ?thesis
    unfolding curvature_pair_def cg Let_def
    by (auto split: option.splits sum.splits if_splits bool.splits)
qed

lemma quadratic_form_update:
  assumes sq: "square_mat H" and ly: "length y = length H"
  shows "dot x (mat_vec (mat_add H (mat_add (mat_sdiv (outer y y) c)
              (mat_sdiv (outer (mat_vec H d) (mat_vec H d)) e))) x)
       = dot x (mat_vec H x) + (dot y x) ^ 2 / c + (dot (mat_vec H d) x) ^ 2 / e"
proof -
  let ?q = "mat_vec H d"
  let ?R1 = "mat_sdiv (outer y y) c"
  let ?R2 = "mat_sdiv (outer ?q ?q) e"
  have lq: "length ?q = length H" by (simp add: mat_vec_def)
  have sq1: "square_mat ?R1" and sq2: "square_mat ?R2"
    by (intro square_mat_sdiv square_outer)+
  have l1: "length ?R1 = length H" and l2: "length ?R2 = length H"
    using ly lq by (simp_all add: length_mat_sdiv length_outer)
  have sq12: "square_mat (mat_add ?R1 ?R2)"
    using sq1 sq2 l1 l2 by (intro square_mat_add) simp_all
  have l12: "length (mat_add ?R1 ?R2) = length H"
    using l1 l2 by (simp add: length_mat_add)
  have split1: "mat_vec (mat_add H (mat_add ?R1 ?R2)) x
      = vec_add (mat_vec H x) (mat_vec (mat_add ?R1 ?R2) x)"
    using sq sq12 l12 by (intro mat_vec_add) simp_all
  have split2: "mat_vec (mat_add ?R1 ?R2) x = vec_add (mat_vec ?R1 x) (mat_vec ?R2 x)"
    using sq1 sq2 l1 l2 by (intro mat_vec_add) simp_all
  have len_a: "length (mat_vec H x) = length (mat_vec (mat_add ?R1 ?R2) x)"
    using l12 by (simp add: mat_vec_def)
  have len_b: "length (mat_vec ?R1 x) = length (mat_vec ?R2 x)"
    using l1 l2 by (simp add: mat_vec_def)
  have "dot x (mat_vec (mat_add H (mat_add ?R1 ?R2)) x)
      = dot (vec_add (mat_vec H x) (mat_vec (mat_add ?R1 ?R2) x)) x"
    unfolding split1 by (rule dot_commute)
  also have "\<dots> = dot (mat_vec H x) x + dot (mat_vec (mat_add ?R1 ?R2) x) x"
    using len_a by (rule dot_add_left)
  also have "dot (mat_vec (mat_add ?R1 ?R2) x) x
      = dot (mat_vec ?R1 x) x + dot (mat_vec ?R2 x) x"
    unfolding split2 using len_b by (rule dot_add_left)
  finally have "dot x (mat_vec (mat_add H (mat_add ?R1 ?R2)) x)
      = dot x (mat_vec H x) + (dot x (mat_vec ?R1 x) + dot x (mat_vec ?R2 x))"
    by (simp only: dot_commute [of _ x])
  then show ?thesis
    by (simp only: quadratic_form_rank_one add.assoc)
qed

text \<open>
  C1. When the first part of \<^verbatim>\<open>_update_hessian_approximation\<close> asks for an update with
  the pair \<open>(delta, y)\<close>, the scalar it passes on is \<open>y'delta\<close>; the method forms
  \<open>q = H delta\<close> and, unless \<open>y'delta\<close> or \<open>q'delta\<close> is zero, replaces \<open>H\<close> by
  \<open>H + y y' / (y'delta) + q q' / (q'delta)\<close>. For a square \<open>H\<close> of the size of \<open>y\<close> and
  \<open>delta\<close>, the new matrix is symmetric when \<open>H\<close> is, and when \<open>H\<close> is positive definite
  and \<open>y'delta > 0\<close> the update is performed and the new matrix is positive definite.
\<close>

theorem rank_two_update:
  assumes pair: "curvature_pair s x0 x1 x_hat pi1 alpha
                   = (s1, Inr (Some (delta, y, yTdelta)))"
    and H: "hessian_approximation s1 = Some H"
    and sq: "square_mat H"
    and ly: "length y = length H"
    and ld: "length delta = length H"
  shows "yTdelta = dot y delta
     \<and> (yTdelta \<noteq> 0 \<and> dot (mat_vec H delta) delta \<noteq> 0 \<longrightarrow>
          update_hessian_approximation s x0 x1 x_hat pi1 alpha
            = (s1\<lparr>hessian_approximation :=
                    Some (mat_add H (mat_add (mat_sdiv (outer y y) (dot y delta))
                       (mat_sdiv (outer (mat_vec H delta) (mat_vec H delta))
                                 (dot (mat_vec H delta) delta))))\<rparr>, Inr ()))
     \<and> (symmetric_mat H \<longrightarrow>
          symmetric_mat (mat_add H (mat_add (mat_sdiv (outer y y) (dot y delta))
                       (mat_sdiv (outer (mat_vec H delta) (mat_vec H delta))
                                 (dot (mat_vec H delta) delta)))))
     \<and> (positive_definite H \<and> 0 < yTdelta \<longrightarrow>
          update_hessian_approximation s x0 x1 x_hat pi1 alpha
            = (s1\<lparr>hessian_approximation :=
                    Some (mat_add H (mat_add (mat_sdiv (outer y y) (dot y delta))
                       (mat_sdiv (outer (mat_vec H delta) (mat_vec H delta))
                                 (dot (mat_vec H delta) delta))))\<rparr>, Inr ())
          \<and> positive_definite (mat_add H (mat_add (mat_sdiv (outer y y) (dot y delta))
                       (mat_sdiv (outer (mat_vec H delta) (mat_vec H delta))
                                 (dot (mat_vec H delta) delta)))))"
proof -
  let ?q = "mat_vec H delta"
  let ?R1 = "mat_sdiv (outer y y) (dot y delta)"
  let ?R2 = "mat_sdiv (outer ?q ?q) (dot ?q delta)"
  let ?H' = "mat_add H (mat_add ?R1 ?R2)"
  have t: "yTdelta = dot y delta"
    using pair by (rule curvature_pair_product)
  have lq: "length ?q = length H" by (simp add: mat_vec_def)
  have l1: "length ?R1 = length H" and l2: "length ?R2 = length H"
    using ly lq by (simp_all add: length_mat_sdiv length_outer)
  have l12: "length (mat_add ?R1 ?R2) = length H"
    using l1 l2 by (simp add: length_mat_add)
  have lH': "length ?H' = length H"
    using l12 by (simp add: length_mat_add)
  have run: "update_hessian_approximation s x0 x1 x_hat pi1 alpha
            = (s1\<lparr>hessian_approximation := Some ?H'\<rparr>, Inr ())"
    if "yTdelta \<noteq> 0" and "dot ?q delta \<noteq> 0"
    using that by (simp add: update_hessian_approximation_def pair H Let_def t)
  have sym: "symmetric_mat ?H'" if "symmetric_mat H"
  proof -
    have "length ?R1 = length ?R2" using l1 l2 by simp
    with symmetric_rank_one symmetric_rank_one have inner: "symmetric_mat (mat_add ?R1 ?R2)"
      by (rule symmetric_mat_add)
    have "length H = length (mat_add ?R1 ?R2)" using l12 by simp
    with that inner show ?thesis by (rule symmetric_mat_add)
  qed
  have pd: "update_hessian_approximation s x0 x1 x_hat pi1 alpha
            = (s1\<lparr>hessian_approximation := Some ?H'\<rparr>, Inr ())
          \<and> positive_definite ?H'"
    if pdH: "positive_definite H" and pos: "0 < yTdelta"
  proof -
    have yd: "0 < dot y delta" using pos t by simp
    have "delta \<noteq> zeros (length H)"
    proof
      assume "delta = zeros (length H)"
      then have "dot y delta = 0" by (simp add: dot_zeros_right)
      with yd show False by simp
    qed
    with pdH ld have "0 < dot delta ?q" by (simp add: positive_definite_def)
    then have qd: "0 < dot ?q delta" by (simp add: dot_commute)
    have r: "update_hessian_approximation s x0 x1 x_hat pi1 alpha
            = (s1\<lparr>hessian_approximation := Some ?H'\<rparr>, Inr ())"
      using pos qd by (intro run) simp_all
    have "0 < dot x (mat_vec ?H' x)" if x: "length x = length ?H'" "x \<noteq> zeros (length ?H')"
      for x
    proof -
      from x lH' pdH have base: "0 < dot x (mat_vec H x)"
        by (simp add: positive_definite_def)
      have "0 \<le> (dot y x) ^ 2 / dot y delta" using yd by simp
      moreover have "0 \<le> (dot ?q x) ^ 2 / dot ?q delta" using qd by simp
      ultimately have "0 < dot x (mat_vec H x) + (dot y x) ^ 2 / dot y delta
            + (dot ?q x) ^ 2 / dot ?q delta"
        using base by linarith
      then show ?thesis
        by (simp only: quadratic_form_update [OF sq ly])
    qed
    then have "positive_definite ?H'" by (simp add: positive_definite_def)
    with r show ?thesis by simp
  qed
  from t run sym pd show ?thesis by blast
qed

theorem rank_two_update_witness:
  "curvature_pair
     ((Sqp_init (\<lambda>x. (x ! 0) ^ 2) (Some (\<lambda>x. [2 * x ! 0])) [] [] (1 / 100))
        \<lparr>hessian_approximation := Some [[1]], f_grad_k := Some [2],
          jacobian_k := Some [], x_used_for_gradient_computation := Some [1]\<rparr>)
     [1] [0] [- 1] [] (1 / 2)
   = ((Sqp_init (\<lambda>x. (x ! 0) ^ 2) (Some (\<lambda>x. [2 * x ! 0])) [] [] (1 / 100))
        \<lparr>hessian_approximation := Some [[1]], f_grad_k := Some [0],
          jacobian_k := Some [], x_used_for_gradient_computation := Some [0]\<rparr>,
      Inr (Some ([- 1], [- 2], 2)))
   \<and> symmetric_mat [[1]] \<and> positive_definite [[1]]
   \<and> update_hessian_approximation
     ((Sqp_init (\<lambda>x. (x ! 0) ^ 2) (Some (\<lambda>x. [2 * x ! 0])) [] [] (1 / 100))
        \<lparr>hessian_approximation := Some [[1]], f_grad_k := Some [2],
          jacobian_k := Some [], x_used_for_gradient_computation := Some [1]\<rparr>)
     [1] [0] [- 1] [] (1 / 2)
   = ((Sqp_init (\<lambda>x. (x ! 0) ^ 2) (Some (\<lambda>x. [2 * x ! 0])) [] [] (1 / 100))
        \<lparr>hessian_approximation := Some [[4]], f_grad_k := Some [0],
          jacobian_k := Some [], x_used_for_gradient_computation := Some [0]\<rparr>,
      Inr ())
   \<and> symmetric_mat [[4]] \<and> positive_definite [[4]]"
proof -
  define s where "s = (Sqp_init (\<lambda>x. (x ! 0) ^ 2) (Some (\<lambda>x. [2 * x ! 0])) [] [] (1 / 100))
        \<lparr>hessian_approximation := Some [[1]], f_grad_k := Some [2],
          jacobian_k := Some [], x_used_for_gradient_computation := Some [1]\<rparr>"
  define s2 where "s2 = s\<lparr>f_grad_k := Some [0], jacobian_k := Some [],
          x_used_for_gradient_computation := Some [0]\<rparr>"
  have f1: "f_grad_k s = Some [2]" "jacobian_k s = Some []"
    by (simp_all add: s_def)
  have f2: "f_grad_k s2 = Some [0]" "jacobian_k s2 = Some []"
    "hessian_approximation s2 = Some [[1]]" "cs s2 = []" "eta s2 = 1 / 2"
    by (simp_all add: s2_def s_def Sqp_init_def)
  have cg: "compute_gradients s [0] = (s2, Inr ())"
    by (simp add: compute_gradients_def s_def s2_def Sqp_init_def zero_mat_def)
  have pair: "curvature_pair s [1] [0] [- 1] [] (1 / 2) = (s2, Inr (Some ([- 1], [- 2], 2)))"
    by (simp add: curvature_pair_def cg Let_def f1 f2 vec_sub_def mat_vec_def dot_def
          mat_sub_def tmat_vec_def)
  have sq: "square_mat [[1]]" by (simp add: square_mat_def)
  have sym: "symmetric_mat [[1]]" by (simp add: symmetric_mat_def square_mat_def)
  have pd: "positive_definite [[1]]"
    unfolding positive_definite_def
  proof (intro allI impI)
    fix x :: vec
    assume "length x = length [[1 :: real]] \<and> x \<noteq> zeros (length [[1 :: real]])"
    then obtain a where "x = [a]" "a \<noteq> 0"
      by (cases x) (auto simp: zeros_def)
    then show "0 < dot x (mat_vec [[1]] x)"
      by (auto simp: dot_def mat_vec_def zero_less_mult_iff)
  qed
  have ly: "length [- 2 :: real] = length [[1 :: real]]" by simp
  have ld: "length [- 1 :: real] = length [[1 :: real]]" by simp
  have new: "mat_add [[1]] (mat_add (mat_sdiv (outer [- 2] [- 2]) (dot [- 2] [- 1]))
                       (mat_sdiv (outer (mat_vec [[1]] [- 1]) (mat_vec [[1]] [- 1]))
                                 (dot (mat_vec [[1]] [- 1]) [- 1]))) = [[4]]"
    by (simp add: mat_add_def vec_add_def mat_sdiv_def outer_def mat_vec_def dot_def)
  have pos: "(0 :: real) < 2" by simp
  note inst = rank_two_update [OF pair f2(3) sq ly ld]
  from inst sym have sym': "symmetric_mat [[4]]"
    unfolding new by blast
  from inst pd pos have upd: "update_hessian_approximation s [1] [0] [- 1] [] (1 / 2)
      = (s2\<lparr>hessian_approximation := Some [[4]]\<rparr>, Inr ())"
    and pd': "positive_definite [[4]]"
    unfolding new by blast+
  from pair sym pd upd sym' pd' show ?thesis
    unfolding s2_def s_def by simp
qed

section \<open>Curvature correction: properties\<close>







section \<open>The subproblem call in an iteration\<close>

lemma cache_consistent_init:
  "cache_consistent (Sqp_init f0 f_grad0 cs0 c_grads0 tol0)"
  by (simp add: cache_consistent_def Sqp_init_def)

lemma objective_gradient_cache_update:
  "objective_gradient (s\<lparr>f_grad_k := gk, jacobian_k := Jk,
       x_used_for_gradient_computation := u\<rparr>) x = objective_gradient s x"
  by (simp add: objective_gradient_def split: option.splits)

lemma jacobian_at_cache_update:
  "jacobian_at (s\<lparr>f_grad_k := gk, jacobian_k := Jk,
       x_used_for_gradient_computation := u\<rparr>) x = jacobian_at s x"
  by (simp add: jacobian_at_def constraint_row_def split: option.splits)

lemma compute_gradients_consistent_value:
  assumes consistent: "cache_consistent s"
    and tol: "tol s \<noteq> 0"
    and cover: "c_grads s = [] \<or> length (cs s) \<le> length (c_grads s)"
    and lens: "\<forall>i<length (cs s). \<forall>g. c_grads s \<noteq> [] \<and> c_grads s ! i = Some g
               \<longrightarrow> length (g x) = length x"
  shows "compute_gradients s x =
           (s\<lparr>f_grad_k := Some (objective_gradient s x),
               jacobian_k := Some (jacobian_at s x),
               x_used_for_gradient_computation := Some x\<rparr>, Inr ())"
proof (cases "x_used_for_gradient_computation s = Some x")
  case True
  with consistent have "f_grad_k s = Some (objective_gradient s x)"
    and "jacobian_k s = Some (jacobian_at s x)"
    by (simp_all add: cache_consistent_def)
  with True have "s\<lparr>f_grad_k := Some (objective_gradient s x),
               jacobian_k := Some (jacobian_at s x),
               x_used_for_gradient_computation := Some x\<rparr> = s"
    by simp
  moreover have "compute_gradients s x = (s, Inr ())"
    using True by (rule compute_gradients_cached)
  ultimately show ?thesis by simp
next
  case False
  then show ?thesis
    using compute_gradients_miss [OF False tol cover lens]
    by (simp add: objective_gradient_def jacobian_at_def)
qed

lemma compute_gradients_keeps_consistency:
  assumes "cache_consistent s" and "tol s \<noteq> 0"
    and "c_grads s = [] \<or> length (cs s) \<le> length (c_grads s)"
    and "\<forall>i<length (cs s). \<forall>g. c_grads s \<noteq> [] \<and> c_grads s ! i = Some g
               \<longrightarrow> length (g x) = length x"
  shows "cache_consistent (fst (compute_gradients s x))"
  using compute_gradients_consistent_value [OF assms]
  by (simp add: cache_consistent_def objective_gradient_cache_update
      jacobian_at_cache_update)

text \<open>
  C8. At the start of an iteration of \<^verbatim>\<open>solve\<close> the cache is consistent, and the
  iteration calls \<^verbatim>\<open>_compute_gradients(x_k)\<close> and then \<^verbatim>\<open>_solve_qp(x_k)\<close>. For a
  nonzero \<open>tol\<close> and well-formed gradient lists, the subsolver then receives the Hessian
  approximation \<open>H\<close>, the vector \<open>grad f(x_k) - H x_k\<close>, empty equality constraints, the
  Jacobian at \<open>x_k\<close> and the right-hand side \<open>J(x_k) x_k - c(x_k)\<close>, with the minor
  tolerance and a budget of 100 iterations. \<^verbatim>\<open>_solve_qp\<close> returns the subsolver's \<open>x\<close>,
  \<open>s\<close>, \<open>pi\<close> and iteration count when the residual and the gap are both below the
  minor tolerance and fails with \<open>QPSubproblemFailure\<close> otherwise, and the iteration
  then ends the loop of \<^verbatim>\<open>solve\<close> with that failure. The constructor sets the minor
  tolerance to \<open>tol / 100\<close>.
\<close>

theorem solve_qp_canonical_form:
  assumes consistent: "cache_consistent s0"
    and tol: "tol s0 \<noteq> 0"
    and cover: "c_grads s0 = [] \<or> length (cs s0) \<le> length (c_grads s0)"
    and lens: "\<forall>i<length (cs s0). \<forall>g. c_grads s0 \<noteq> [] \<and> c_grads s0 ! i = Some g
               \<longrightarrow> length (g x_k) = length x_k"
    and H: "hessian_approximation s0 = Some H"
    and out: "qp H (vec_sub (objective_gradient s0 x_k) (mat_vec H x_k)) [] []
                 (jacobian_at s0 x_k)
                 (vec_sub (mat_vec (jacobian_at s0 x_k) x_k) (map (\<lambda>c. c x_k) (cs s0)))
                 (minor_tol s0) 100 = (x, sl, pi_v, fv, res, gap, iteration)"
  shows "compute_gradients s0 x_k =
           (s0\<lparr>f_grad_k := Some (objective_gradient s0 x_k),
                jacobian_k := Some (jacobian_at s0 x_k),
                x_used_for_gradient_computation := Some x_k\<rparr>, Inr ())
         \<and> solve_qp qp
             (s0\<lparr>f_grad_k := Some (objective_gradient s0 x_k),
                 jacobian_k := Some (jacobian_at s0 x_k),
                 x_used_for_gradient_computation := Some x_k\<rparr>) x_k =
           (s0\<lparr>f_grad_k := Some (objective_gradient s0 x_k),
                jacobian_k := Some (jacobian_at s0 x_k),
                x_used_for_gradient_computation := Some x_k\<rparr>,
            if res < minor_tol s0 \<and> gap < minor_tol s0
            then Inr (x, sl, pi_v, iteration) else Inl QPSubproblemFailure)
         \<and> (\<not> (res < minor_tol s0 \<and> gap < minor_tol s0) \<longrightarrow>
              (\<forall>k s_k pi_k.
                 solve_loop qp (Suc k) s0 x_k s_k pi_k =
                   (s0\<lparr>f_grad_k := Some (objective_gradient s0 x_k),
                        jacobian_k := Some (jacobian_at s0 x_k),
                        x_used_for_gradient_computation := Some x_k\<rparr>,
                    Inl QPSubproblemFailure)))
         \<and> minor_tol (Sqp_init f0 f_grad0 cs0 c_grads0 tol0) = tol0 / 100"
proof -
  define s1 where "s1 = s0\<lparr>f_grad_k := Some (objective_gradient s0 x_k),
                jacobian_k := Some (jacobian_at s0 x_k),
                x_used_for_gradient_computation := Some x_k\<rparr>"
  have cg0: "compute_gradients s0 x_k = (s1, Inr ())"
    unfolding s1_def using consistent tol cover lens
    by (rule compute_gradients_consistent_value)
  have fields: "hessian_approximation s1 = Some H"
    "f_grad_k s1 = Some (objective_gradient s0 x_k)"
    "jacobian_k s1 = Some (jacobian_at s0 x_k)"
    "minor_tol s1 = minor_tol s0"
    "evaluate_constraints s1 x_k = map (\<lambda>c. c x_k) (cs s0)"
    by (simp_all add: s1_def H evaluate_constraints_def)
  have cg1: "compute_gradients s1 x_k = (s1, Inr ())"
    by (rule compute_gradients_cached) (simp add: s1_def)
  have call: "solve_qp qp s1 x_k =
           (s1, if res < minor_tol s0 \<and> gap < minor_tol s0
                then Inr (x, sl, pi_v, iteration) else Inl QPSubproblemFailure)"
    by (simp add: solve_qp_def fields cg1 out Let_def)
  have abort: "solve_loop qp (Suc k) s0 x_k s_k pi_k = (s1, Inl QPSubproblemFailure)"
    if "\<not> (res < minor_tol s0 \<and> gap < minor_tol s0)" for k s_k pi_k
  proof -
    from that call have "solve_qp qp s1 x_k = (s1, Inl QPSubproblemFailure)" by auto
    with cg0 show ?thesis by simp
  qed
  have "minor_tol (Sqp_init f0 f_grad0 cs0 c_grads0 tol0) = tol0 / 100"
    by (simp add: Sqp_init_def)
  with cg0 call abort show ?thesis unfolding s1_def by blast
qed

theorem solve_qp_canonical_form_witness:
  "compute_gradients
     ((Sqp_init (\<lambda>x. (x ! 0) ^ 2) None [\<lambda>x. x ! 0 - 1] [Some (\<lambda>x. [1])] 1)
        \<lparr>hessian_approximation := Some [[3]]\<rparr>) [2]
   = ((Sqp_init (\<lambda>x. (x ! 0) ^ 2) None [\<lambda>x. x ! 0 - 1] [Some (\<lambda>x. [1])] 1)
        \<lparr>hessian_approximation := Some [[3]], f_grad_k := Some [4],
          jacobian_k := Some [[1]], x_used_for_gradient_computation := Some [2]\<rparr>, Inr ())
   \<and> solve_qp (\<lambda>Q c A_eq b_eq A_ineq b_ineq t n.
                 (c, b_ineq, concat A_ineq @ concat Q @ concat A_eq @ b_eq, 0, 0, 0, n))
     ((Sqp_init (\<lambda>x. (x ! 0) ^ 2) None [\<lambda>x. x ! 0 - 1] [Some (\<lambda>x. [1])] 1)
        \<lparr>hessian_approximation := Some [[3]], f_grad_k := Some [4],
          jacobian_k := Some [[1]], x_used_for_gradient_computation := Some [2]\<rparr>) [2]
   = ((Sqp_init (\<lambda>x. (x ! 0) ^ 2) None [\<lambda>x. x ! 0 - 1] [Some (\<lambda>x. [1])] 1)
        \<lparr>hessian_approximation := Some [[3]], f_grad_k := Some [4],
          jacobian_k := Some [[1]], x_used_for_gradient_computation := Some [2]\<rparr>,
      Inr ([- 2], [1], [1, 3], 100))
   \<and> solve_loop (\<lambda>Q c A_eq b_eq A_ineq b_ineq t n. (c, b_ineq, [0], 0, t / 2, t, n)) 5
     ((Sqp_init (\<lambda>x. (x ! 0) ^ 2) None [\<lambda>x. x ! 0 - 1] [Some (\<lambda>x. [1])] 1)
        \<lparr>hessian_approximation := Some [[3]]\<rparr>) [2] [0] [0]
   = ((Sqp_init (\<lambda>x. (x ! 0) ^ 2) None [\<lambda>x. x ! 0 - 1] [Some (\<lambda>x. [1])] 1)
        \<lparr>hessian_approximation := Some [[3]], f_grad_k := Some [4],
          jacobian_k := Some [[1]], x_used_for_gradient_computation := Some [2]\<rparr>,
      Inl QPSubproblemFailure)"
proof -
  define echo :: qp_solver where
    "echo = (\<lambda>Q c A_eq b_eq A_ineq b_ineq t n.
               (c, b_ineq, concat A_ineq @ concat Q @ concat A_eq @ b_eq, 0, 0, 0, n))"
  define loose :: qp_solver where
    "loose = (\<lambda>Q c A_eq b_eq A_ineq b_ineq t n. (c, b_ineq, [0], 0, t / 2, t, n))"
  define s0 where "s0 = (Sqp_init (\<lambda>x. (x ! 0) ^ 2) None [\<lambda>x. x ! 0 - 1]
      [Some (\<lambda>x. [1])] 1)\<lparr>hessian_approximation := Some [[3]]\<rparr>"
  have fields: "tol s0 = 1" "c_grads s0 = [Some (\<lambda>x. [1])]" "cs s0 = [\<lambda>x. x ! 0 - 1]"
    "f_grad s0 = None" "f s0 = (\<lambda>x. (x ! 0) ^ 2)" "minor_tol s0 = 1 / 100"
    "x_used_for_gradient_computation s0 = None"
    by (simp_all add: s0_def Sqp_init_def)
  have consistent: "cache_consistent s0" by (simp add: cache_consistent_def fields)
  have tol: "tol s0 \<noteq> 0" by (simp add: fields)
  have cover: "c_grads s0 = [] \<or> length (cs s0) \<le> length (c_grads s0)"
    by (simp add: fields)
  have lens: "\<forall>i<length (cs s0). \<forall>g. c_grads s0 \<noteq> [] \<and> c_grads s0 ! i = Some g
               \<longrightarrow> length (g [2]) = length [2 :: real]"
    by (simp add: fields)
  have H: "hessian_approximation s0 = Some [[3]]" by (simp add: s0_def)
  have "(3 :: real) ^ 2 - 1 = 8" by simp
  then have og: "objective_gradient s0 [2] = [4]"
    by (simp add: objective_gradient_def fields central_difference_def)
  have ja: "jacobian_at s0 [2] = [[1]]"
    by (simp add: jacobian_at_def fields constraint_row_def)
  have out1: "echo [[3]] (vec_sub (objective_gradient s0 [2]) (mat_vec [[3]] [2])) [] []
                 (jacobian_at s0 [2])
                 (vec_sub (mat_vec (jacobian_at s0 [2]) [2]) (map (\<lambda>c. c [2]) (cs s0)))
                 (minor_tol s0) 100 = ([- 2], [1], [1, 3], 0, 0, 0, 100)"
    by (simp add: echo_def og ja fields vec_sub_def mat_vec_def dot_def)
  have out2: "loose [[3]] (vec_sub (objective_gradient s0 [2]) (mat_vec [[3]] [2])) [] []
                 (jacobian_at s0 [2])
                 (vec_sub (mat_vec (jacobian_at s0 [2]) [2]) (map (\<lambda>c. c [2]) (cs s0)))
                 (minor_tol s0) 100 = ([- 2], [1], [0], 0, 1 / 200, 1 / 100, 100)"
    by (simp add: loose_def og ja fields vec_sub_def mat_vec_def dot_def)
  note inst1 = solve_qp_canonical_form [where qp = echo and ?s0.0 = s0 and x_k = "[2]"
      and H = "[[3]]" and ?f0.0 = "\<lambda>x. 0" and ?f_grad0.0 = None and ?cs0.0 = "[]"
      and ?c_grads0.0 = "[]" and ?tol0.0 = 1, OF consistent tol cover lens H out1]
  note inst2 = solve_qp_canonical_form [where qp = loose and ?s0.0 = s0 and x_k = "[2]"
      and H = "[[3]]" and ?f0.0 = "\<lambda>x. 0" and ?f_grad0.0 = None and ?cs0.0 = "[]"
      and ?c_grads0.0 = "[]" and ?tol0.0 = 1, OF consistent tol cover lens H out2]
  define s1 where "s1 = s0\<lparr>f_grad_k := Some [4], jacobian_k := Some [[1]],
      x_used_for_gradient_computation := Some [2]\<rparr>"
  from inst1 have a: "compute_gradients s0 [2] = (s1, Inr ())"
    by (simp add: og ja s1_def)
  from inst1 have b: "solve_qp echo s1 [2] = (s1, Inr ([- 2], [1], [1, 3], 100))"
    by (simp add: og ja s1_def fields)
  have below: "\<not> ((1 / 200 :: real) < minor_tol s0 \<and> (1 / 100 :: real) < minor_tol s0)"
    by (simp add: fields)
  from inst2 below have "solve_loop loose (Suc 4) s0 [2] [0] [0] = (s1, Inl QPSubproblemFailure)"
    unfolding og ja s1_def by blast
  then have c: "solve_loop loose 5 s0 [2] [0] [0] = (s1, Inl QPSubproblemFailure)"
    by (simp only: eval_nat_numeral)
  from a b c show ?thesis unfolding s1_def s0_def echo_def loose_def by simp
qed

section \<open>Curvature correction: the sign of the corrected product\<close>

lemma constraint_row_hessian:
  "constraint_row (s\<lparr>hessian_approximation := h\<rparr>) = constraint_row s"
  by (simp add: constraint_row_def fun_eq_iff split: option.splits)

lemma constraint_row_rho:
  "constraint_row (s\<lparr>rho := r\<rparr>) = constraint_row s"
  by (simp add: constraint_row_def fun_eq_iff split: option.splits)

lemma cache_consistent_hessian:
  "cache_consistent (s\<lparr>hessian_approximation := h\<rparr>) = cache_consistent s"
  by (simp add: cache_consistent_def objective_gradient_def jacobian_at_def
      constraint_row_hessian split: option.splits)

lemma cache_consistent_rho:
  "cache_consistent (s\<lparr>rho := r\<rparr>) = cache_consistent s"
  by (simp add: cache_consistent_def objective_gradient_def jacobian_at_def
      constraint_row_rho split: option.splits)




end
